theory Spec2Isabelle
  imports Main "HOL-Library.Sublist"
begin

section \<open>Strings as the extension reads them\<close>

text \<open>
  The extension (\<^verbatim>\<open>src/src/GitBlameService.ts\<close>, \<^verbatim>\<open>src/src/SidebarProvider.ts\<close>) works on
  JavaScript strings: the standard output of three git commands, file paths and the
  commit identifiers typed into the side bar. A string is modelled as a \<open>char list\<close>.
  The functions below are the string primitives the source calls:
  \<^verbatim>\<open>\w\<close> of the regular expression \<^verbatim>\<open>/^(\w+)/\<close>, \<^verbatim>\<open>String.prototype.trim\<close>,
  \<^verbatim>\<open>split('\n')\<close>, \<^verbatim>\<open>startsWith('I')\<close> and \<^verbatim>\<open>JSON.stringify\<close> on an array of strings.
  Characters here are 8-bit; code units above 0xFF (none of which is a word character,
  and none of which JSON escapes apart from lone surrogates) are outside the model.
\<close>

type_synonym path = string

definition isWordChar :: "char \<Rightarrow> bool" where
  "isWordChar c =
     (c \<in> set ''abcdefghijklmnopqrstuvwxyzABCDEFGHIJKLMNOPQRSTUVWXYZ0123456789_'')"

definition isWhiteSpace :: "char \<Rightarrow> bool" where
  "isWhiteSpace c =
     (c \<in> set [CHR 0x09, CHR 0x0A, CHR 0x0B, CHR 0x0C, CHR 0x0D, CHR 0x20, CHR 0xA0])"

definition trim :: "string \<Rightarrow> string" where
  "trim s = rev (dropWhile isWhiteSpace (rev (dropWhile isWhiteSpace s)))"

text \<open>\<^verbatim>\<open>s.split('\n')\<close>: the pieces between line feeds; never the empty list.\<close>

fun split_from :: "string \<Rightarrow> string \<Rightarrow> string list" where
  "split_from cur [] = [cur]"
| "split_from cur (c # cs) =
     (if c = CHR 0x0A then cur # split_from [] cs else split_from (cur @ [c]) cs)"

definition split_nl :: "string \<Rightarrow> string list" where
  "split_nl s = split_from [] s"

text \<open>\<^verbatim>\<open>line.match(/^(\w+)/)\<close>: the leading run of word characters, when it is not empty.\<close>

definition matchWord :: "string \<Rightarrow> string option" where
  "matchWord line =
     (let m = takeWhile isWordChar line in if m = [] then None else Some m)"

definition startsWith_I :: "string \<Rightarrow> bool" where
  "startsWith_I identifier = (case identifier of [] \<Rightarrow> False | c # _ \<Rightarrow> c = CHR ''I'')"

text \<open>
  \<^verbatim>\<open>JSON.stringify\<close> of an array of strings (ECMAScript \<^verbatim>\<open>QuoteJSONString\<close>): the
  elements in double quotes, separated by commas, in brackets; inside an element the
  quote, the backslash and the control characters are escaped.
\<close>

definition hexDigit :: "nat \<Rightarrow> char" where
  "hexDigit n = ''0123456789abcdef'' ! n"

definition quoteChar :: "char \<Rightarrow> string" where
  "quoteChar c =
     (if c = CHR 0x08 then [CHR 0x5C, CHR ''b'']
      else if c = CHR 0x09 then [CHR 0x5C, CHR ''t'']
      else if c = CHR 0x0A then [CHR 0x5C, CHR ''n'']
      else if c = CHR 0x0C then [CHR 0x5C, CHR ''f'']
      else if c = CHR 0x0D then [CHR 0x5C, CHR ''r'']
      else if c = CHR 0x22 then [CHR 0x5C, CHR 0x22]
      else if c = CHR 0x5C then [CHR 0x5C, CHR 0x5C]
      else if (of_char c :: nat) < 32 then
        [CHR 0x5C, CHR ''u'', CHR ''0'', CHR ''0'',
         hexDigit ((of_char c :: nat) div 16), hexDigit ((of_char c :: nat) mod 16)]
      else [c])"

definition quoteJSONString :: "string \<Rightarrow> string" where
  "quoteJSONString s = [CHR 0x22] @ concat (map quoteChar s) @ [CHR 0x22]"

fun joinComma :: "string list \<Rightarrow> string" where
  "joinComma [] = []"
| "joinComma [x] = x"
| "joinComma (x # y # ys) = x @ '','' @ joinComma (y # ys)"

definition JSON_stringify :: "string list \<Rightarrow> string" where
  "JSON_stringify xs = ''['' @ joinComma (map quoteJSONString xs) @ '']''"

section \<open>Data model\<close>

text \<open>\<^verbatim>\<open>interface BlameInfo { hash: string; lines: number[] }\<close>\<close>

record BlameInfo =
  hash :: string
  lines :: "nat list"

text \<open>
  \<^verbatim>\<open>interface HighlightedFileInfo { uri: vscode.Uri; highlightCount: number }\<close>; the
  Uri of a file is represented by its \<^verbatim>\<open>fsPath\<close>.
\<close>

record HighlightedFileInfo =
  uri :: path
  highlightCount :: nat

text \<open>
  A decoration \<^verbatim>\<open>{ range: line.range, hoverMessage: `Commit: ${hash}` }\<close>; the range
  of a whole line is represented by its line number.
\<close>

record Decoration =
  range_line :: nat
  hoverMessage :: string

text \<open>
  A \<^verbatim>\<open>vscode.TextEditor\<close>: the path of its document, the number of lines of the
  document, and the decorations it shows for the service's two decoration types.
\<close>

record TextEditor =
  fsPath :: path
  lineCount :: nat
  highlightDecorations :: "Decoration list"
  minimapDecorations :: "Decoration list"

text \<open>
  What the extension does to the outside, in the order it does it: the commands it
  runs through \<^verbatim>\<open>child_process.exec\<close> (command line and working directory), its
  \<^verbatim>\<open>console.warn\<close> and \<^verbatim>\<open>console.error\<close> lines, the error pop-ups, the
  \<^verbatim>\<open>restoreState\<close> message \<^verbatim>\<open>saveState\<close> posts to the webview, and the firing of
  \<^verbatim>\<open>_onDidChangeFileDecorations\<close>. The \<^verbatim>\<open>console.log\<close> lines and the information
  pop-ups are not recorded.
\<close>

datatype event =
    Exec string path
  | ConsoleWarn string
  | ConsoleError string
  | ShowErrorMessage string
  | PostRestoreState "string list" bool
  | FireFileDecorations

text \<open>
  The host the extension queries, taken as a parameter: the workspace folder of a file
  (\<^verbatim>\<open>vscode.workspace.getWorkspaceFolder\<close>), the workspace folders, the result of
  running a command in a directory (\<open>Inl\<close> the error the promise rejects with, as
  printed; \<open>Inr\<close> the standard output), and Node's \<^verbatim>\<open>path.relative\<close> and
  \<^verbatim>\<open>path.join\<close>.
\<close>

record host_env =
  getWorkspaceFolder :: "path \<Rightarrow> path option"
  workspaceFolders :: "path list"
  exec :: "string \<Rightarrow> path \<Rightarrow> string + string"
  path_relative :: "path \<Rightarrow> path \<Rightarrow> path"
  path_join :: "path \<Rightarrow> path \<Rightarrow> path"

text \<open>
  The state: the two maps of \<^verbatim>\<open>GitBlameService\<close>, the two fields of
  \<^verbatim>\<open>SidebarProvider\<close>, the visible editors of the window (the active one, when there
  is one, by its position among them) and the trace of events so far.
\<close>

record state =
  blameCache :: "path \<rightharpoonup> BlameInfo list"
  highlightedFiles :: "path \<rightharpoonup> HighlightedFileInfo"
  commitHashes :: "string list"
  isHighlightingEnabled :: bool
  visibleTextEditors :: "TextEditor list"
  activeTextEditor :: "nat option"
  trace :: "event list"

datatype message =
    UpdateCommitHashes "string list"
  | ToggleHighlighting bool
  | ViewStateRestored

section \<open>GitBlameService\<close>

text \<open>
  An \<^verbatim>\<open>async\<close> function is run to its end where it is called: the interleaving of
  calls that overlap at an \<^verbatim>\<open>await\<close> is not modelled. A function that can throw
  returns a sum, \<open>Inl\<close> the error thrown to the caller, next to the state it leaves.
\<close>

definition emit :: "event \<Rightarrow> state \<Rightarrow> state" where
  "emit e s = s\<lparr>trace := trace s @ [e]\<rparr>"

definition refreshFileExplorerDecorations :: "state \<Rightarrow> state" where
  "refreshFileExplorerDecorations s = emit FireFileDecorations s"

text \<open>
  The two \<^verbatim>\<open>editor.setDecorations\<close> calls, one for each decoration type, always with
  the same array.
\<close>

definition setDecorations :: "Decoration list \<Rightarrow> TextEditor \<Rightarrow> TextEditor" where
  "setDecorations ds editor = editor\<lparr>highlightDecorations := ds, minimapDecorations := ds\<rparr>"

definition updateEditor :: "nat \<Rightarrow> (TextEditor \<Rightarrow> TextEditor) \<Rightarrow> state \<Rightarrow> state" where
  "updateEditor i f s =
     s\<lparr>visibleTextEditors := (visibleTextEditors s)[i := f (visibleTextEditors s ! i)]\<rparr>"

text \<open>The body of the parser's loop: \<^verbatim>\<open>hashMap\<close> is a Map, which keeps insertion order.\<close>

fun hashMap_push :: "string \<Rightarrow> nat \<Rightarrow> (string \<times> nat list) list \<Rightarrow> (string \<times> nat list) list" where
  "hashMap_push h i [] = [(h, [i])]"
| "hashMap_push h i ((k, ns) # m) =
     (if k = h then (k, ns @ [i]) # m else (k, ns) # hashMap_push h i m)"

fun blameLoop :: "nat \<Rightarrow> string list \<Rightarrow> (string \<times> nat list) list \<Rightarrow> (string \<times> nat list) list" where
  "blameLoop i [] hashMap = hashMap"
| "blameLoop i (line # rest) hashMap =
     (if line = [] \<or> trim line = [] then blameLoop (Suc i) rest hashMap
      else (case matchWord line of
              None \<Rightarrow> blameLoop (Suc i) rest hashMap
            | Some h \<Rightarrow> blameLoop (Suc i) rest (hashMap_push (take 40 h) i hashMap)))"

definition parseBlame :: "string \<Rightarrow> BlameInfo list" where
  "parseBlame stdout =
     map (\<lambda>(h, ns). \<lparr>hash = h, lines = ns\<rparr>) (blameLoop 0 (split_nl stdout) [])"

definition blameCommand :: "path \<Rightarrow> string" where
  "blameCommand relativePath = ''git blame -l '' @ [CHR 0x22] @ relativePath @ [CHR 0x22]"

text \<open>The \<^verbatim>\<open>try\<close> block of \<^verbatim>\<open>getBlameInfoForFile\<close>: \<open>Inl\<close> when \<^verbatim>\<open>exec\<close> rejects.\<close>

definition getBlameInfoForFile_try ::
  "host_env \<Rightarrow> path \<Rightarrow> state \<Rightarrow> (string + BlameInfo list) \<times> state" where
  "getBlameInfoForFile_try env filePath s =
     (case getWorkspaceFolder env filePath of
        None \<Rightarrow> (Inr [], emit (ConsoleError ''File is not in a workspace folder'') s)
      | Some workspaceFolder \<Rightarrow>
          (let relativePath = path_relative env workspaceFolder filePath;
               cmd = blameCommand relativePath;
               s1 = emit (Exec cmd workspaceFolder) s
           in case exec env cmd workspaceFolder of
                Inl err \<Rightarrow> (Inl err, s1)
              | Inr stdout \<Rightarrow>
                  (let blameInfo = parseBlame stdout
                   in (Inr blameInfo, s1\<lparr>blameCache := (blameCache s1)(filePath \<mapsto> blameInfo)\<rparr>))))"

definition getBlameInfoForFile ::
  "host_env \<Rightarrow> path \<Rightarrow> state \<Rightarrow> (string + BlameInfo list) \<times> state" where
  "getBlameInfoForFile env filePath s =
     (case blameCache s filePath of
        Some cached \<Rightarrow> (Inr cached, s)
      | None \<Rightarrow>
          (case getBlameInfoForFile_try env filePath s of
             (Inl err, s1) \<Rightarrow>
               (Inr [],
                emit (ShowErrorMessage (''Failed to get Git blame info: '' @ err))
                  (emit (ConsoleError (''Error getting blame info: '' @ err)) s1))
           | (Inr blameInfo, s1) \<Rightarrow> (Inr blameInfo, s1)))"

text \<open>
  \<^verbatim>\<open>editor.document.lineAt(lineNumber)\<close> throws for a line number that is not a line
  of the document; the loops of \<^verbatim>\<open>applyHighlighting\<close> run inside its \<^verbatim>\<open>try\<close>.
\<close>

definition lineAt :: "TextEditor \<Rightarrow> nat \<Rightarrow> string + nat" where
  "lineAt editor lineNumber =
     (if lineNumber < lineCount editor then Inr lineNumber
      else Inl ''Error: Illegal value for `line`'')"

fun lineDecorations :: "TextEditor \<Rightarrow> string \<Rightarrow> nat list \<Rightarrow> string + Decoration list" where
  "lineDecorations editor h [] = Inr []"
| "lineDecorations editor h (lineNumber # rest) =
     (case lineAt editor lineNumber of
        Inl err \<Rightarrow> Inl err
      | Inr line \<Rightarrow>
          (case lineDecorations editor h rest of
             Inl err \<Rightarrow> Inl err
           | Inr ds \<Rightarrow> Inr (\<lparr>range_line = line, hoverMessage = ''Commit: '' @ h\<rparr> # ds)))"

fun collectDecorations :: "TextEditor \<Rightarrow> string list \<Rightarrow> BlameInfo list \<Rightarrow> string + Decoration list" where
  "collectDecorations editor hashes [] = Inr []"
| "collectDecorations editor hashes (blameInfo # rest) =
     (if hash blameInfo \<in> set hashes then
        (case lineDecorations editor (hash blameInfo) (lines blameInfo) of
           Inl err \<Rightarrow> Inl err
         | Inr ds \<Rightarrow>
             (case collectDecorations editor hashes rest of
                Inl err \<Rightarrow> Inl err
              | Inr ds' \<Rightarrow> Inr (ds @ ds')))
      else collectDecorations editor hashes rest)"

definition applyHighlighting_catch :: "string \<Rightarrow> state \<Rightarrow> state" where
  "applyHighlighting_catch err s =
     emit (ShowErrorMessage (''Error applying highlighting: '' @ err))
       (emit (ConsoleError (''Error applying highlighting: '' @ err)) s)"

text \<open>
  \<^verbatim>\<open>applyHighlighting(editor, commitHashes)\<close>; the editor is given by its position
  among the visible editors (a position past the end stands for no editor).
\<close>

definition applyHighlighting :: "host_env \<Rightarrow> nat \<Rightarrow> string list \<Rightarrow> state \<Rightarrow> state" where
  "applyHighlighting env i hashes s =
     (if hashes = [] \<or> \<not> i < length (visibleTextEditors s) then s
      else
        (let editor = visibleTextEditors s ! i; filePath = fsPath editor
         in case getBlameInfoForFile env filePath s of
              (Inl err, s1) \<Rightarrow> applyHighlighting_catch err s1
            | (Inr blameInfos, s1) \<Rightarrow>
                if blameInfos = [] then s1
                else
                  (case collectDecorations editor hashes blameInfos of
                     Inl err \<Rightarrow> applyHighlighting_catch err s1
                   | Inr decorationsArray \<Rightarrow>
                       (let s2 = updateEditor i (setDecorations decorationsArray) s1;
                            s3 =
                              (if decorationsArray \<noteq> [] then
                                 s2\<lparr>highlightedFiles := (highlightedFiles s2)(filePath \<mapsto>
                                      \<lparr>uri = filePath, highlightCount = length decorationsArray\<rparr>)\<rparr>
                               else s2\<lparr>highlightedFiles := (highlightedFiles s2)(filePath := None)\<rparr>)
                        in refreshFileExplorerDecorations s3))))"

definition clearHighlighting :: "nat \<Rightarrow> state \<Rightarrow> state" where
  "clearHighlighting i s =
     (if \<not> i < length (visibleTextEditors s) then s
      else
        (let filePath = fsPath (visibleTextEditors s ! i);
             s1 = updateEditor i (setDecorations []) s
         in refreshFileExplorerDecorations
              (s1\<lparr>highlightedFiles := (highlightedFiles s1)(filePath := None)\<rparr>)))"

definition clearAllHighlights :: "state \<Rightarrow> state" where
  "clearAllHighlights s =
     refreshFileExplorerDecorations
       (s\<lparr>visibleTextEditors := map (setDecorations []) (visibleTextEditors s),
          highlightedFiles := Map.empty\<rparr>)"

definition clearBlameCache :: "path \<Rightarrow> state \<Rightarrow> state" where
  "clearBlameCache filePath s = s\<lparr>blameCache := (blameCache s)(filePath := None)\<rparr>"

definition clearAllBlameCache :: "state \<Rightarrow> state" where
  "clearAllBlameCache s = s\<lparr>blameCache := Map.empty\<rparr>"

definition diffTreeCommand :: "string \<Rightarrow> string" where
  "diffTreeCommand commit = ''git diff-tree --no-commit-id --name-only -r '' @ commit"

definition getFilesForCommit ::
  "host_env \<Rightarrow> string \<Rightarrow> path \<Rightarrow> state \<Rightarrow> (string + string list) \<times> state" where
  "getFilesForCommit env commit cwd s =
     (let cmd = diffTreeCommand commit; s1 = emit (Exec cmd cwd) s
      in case exec env cmd cwd of
           Inr stdout \<Rightarrow> (Inr (filter (\<lambda>line. length (trim line) > 0) (split_nl stdout)), s1)
         | Inl err \<Rightarrow>
             (Inr [],
              emit (ConsoleError (''Error getting files for commit '' @ commit @ '': '' @ err)) s1))"

definition logGrepCommand :: "string \<Rightarrow> string" where
  "logGrepCommand changeId =
     ''git log --grep='' @ [CHR 0x22] @ ''Change-Id: '' @ changeId @ [CHR 0x22] @
     '' --format='' @ [CHR 0x22] @ ''%H'' @ [CHR 0x22] @ '' -n 1''"

definition resolveChangeId ::
  "host_env \<Rightarrow> string \<Rightarrow> path \<Rightarrow> state \<Rightarrow> (string + string option) \<times> state" where
  "resolveChangeId env changeId cwd s =
     (let cmd = logGrepCommand changeId; s1 = emit (Exec cmd cwd) s
      in case exec env cmd cwd of
           Inr stdout \<Rightarrow>
             (let commitHash = trim stdout
              in (Inr (if length commitHash > 0 then Some commitHash else None), s1))
         | Inl err \<Rightarrow>
             (Inr None,
              emit (ConsoleError (''Error resolving Change-Id '' @ changeId @ '': '' @ err)) s1))"

text \<open>The inner loop of \<^verbatim>\<open>updateFilesForCommits\<close> over the files of one commit.\<close>

fun markFiles :: "host_env \<Rightarrow> path \<Rightarrow> string list \<Rightarrow> state \<Rightarrow> state" where
  "markFiles env workspacePath [] s = s"
| "markFiles env workspacePath (file # rest) s =
     (let absolutePath = path_join env workspacePath file
      in markFiles env workspacePath rest
           (s\<lparr>highlightedFiles := (highlightedFiles s)(absolutePath \<mapsto>
                \<lparr>uri = absolutePath, highlightCount = 1\<rparr>)\<rparr>))"

text \<open>The loop of \<^verbatim>\<open>updateFilesForCommits\<close> over the identifiers.\<close>

fun updateFilesLoop ::
  "host_env \<Rightarrow> path \<Rightarrow> string list \<Rightarrow> state \<Rightarrow> (string + unit) \<times> state" where
  "updateFilesLoop env workspacePath [] s = (Inr (), s)"
| "updateFilesLoop env workspacePath (identifier # rest) s =
     (case (if startsWith_I identifier then resolveChangeId env identifier workspacePath s
            else (Inr (Some identifier), s)) of
        (Inl err, s1) \<Rightarrow> (Inl err, s1)
      | (Inr None, s1) \<Rightarrow>
          updateFilesLoop env workspacePath rest
            (emit (ConsoleWarn (''Could not resolve Change-Id: '' @ identifier)) s1)
      | (Inr (Some commit), s1) \<Rightarrow>
          (case getFilesForCommit env commit workspacePath s1 of
             (Inl err, s2) \<Rightarrow> (Inl err, s2)
           | (Inr files, s2) \<Rightarrow>
               updateFilesLoop env workspacePath rest (markFiles env workspacePath files s2)))"

definition updateFilesForCommits ::
  "host_env \<Rightarrow> string list \<Rightarrow> state \<Rightarrow> (string + unit) \<times> state" where
  "updateFilesForCommits env commitIdentifiers s =
     (let s0 = s\<lparr>highlightedFiles := Map.empty\<rparr>
      in case workspaceFolders env of
           [] \<Rightarrow> (Inr (), s0)
         | workspacePath # _ \<Rightarrow>
             (case updateFilesLoop env workspacePath commitIdentifiers s0 of
                (Inl err, s1) \<Rightarrow> (Inl err, s1)
              | (Inr _, s1) \<Rightarrow> (Inr (), refreshFileExplorerDecorations s1)))"

section \<open>SidebarProvider\<close>

text \<open>
  \<^verbatim>\<open>vscode.window.activeTextEditor\<close>: the active editor is one of the visible editors,
  so a position past the end of the window stands for none.
\<close>

definition activeEditor :: "state \<Rightarrow> nat option" where
  "activeEditor s =
     (case activeTextEditor s of
        None \<Rightarrow> None
      | Some i \<Rightarrow> if i < length (visibleTextEditors s) then Some i else None)"

definition saveState :: "state \<Rightarrow> state" where
  "saveState s = emit (PostRestoreState (commitHashes s) (isHighlightingEnabled s)) s"

definition highlightActiveEditor :: "host_env \<Rightarrow> state \<Rightarrow> state" where
  "highlightActiveEditor env s =
     (case activeEditor s of
        None \<Rightarrow> s
      | Some i \<Rightarrow>
          (let s1 = clearHighlighting i s
           in if isHighlightingEnabled s1 \<and> commitHashes s1 \<noteq> []
              then applyHighlighting env i (commitHashes s1) s1 else s1))"

text \<open>
  \<^verbatim>\<open>highlightAllVisibleEditors\<close>: the \<^verbatim>\<open>forEach\<close> starts one \<^verbatim>\<open>applyHighlighting\<close>
  for every visible editor but the active one and awaits none of them. Here they run one
  after another, each to its end, so an editor finds in the cache the record that an
  earlier editor of the same file has put there, where the extension asks git once for
  each of them: the trace can hold fewer blame commands than the extension runs.
\<close>

definition highlightAllVisibleEditors :: "host_env \<Rightarrow> state \<Rightarrow> state" where
  "highlightAllVisibleEditors env s =
     (if \<not> isHighlightingEnabled s \<or> commitHashes s = [] then s
      else
        fold (\<lambda>i s'. if activeEditor s' = Some i then s'
                      else applyHighlighting env i (commitHashes s') (clearHighlighting i s'))
          [0..<length (visibleTextEditors s)] s)"

definition triggerHighlighting :: "host_env \<Rightarrow> state \<Rightarrow> state" where
  "triggerHighlighting env s = highlightAllVisibleEditors env (highlightActiveEditor env s)"

text \<open>
  The listener of \<^verbatim>\<open>vscode.window.onDidChangeActiveTextEditor\<close>; the flag says
  whether the event carries an editor.
\<close>

definition onDidChangeActiveTextEditor :: "host_env \<Rightarrow> bool \<Rightarrow> state \<Rightarrow> state" where
  "onDidChangeActiveTextEditor env editor s =
     (if editor \<and> isHighlightingEnabled s then triggerHighlighting env s else s)"

text \<open>
  The listener of \<^verbatim>\<open>vscode.workspace.onDidChangeTextDocument\<close>; the changed document
  is given by its path.
\<close>

definition onDidChangeTextDocument :: "host_env \<Rightarrow> path \<Rightarrow> state \<Rightarrow> state" where
  "onDidChangeTextDocument env document s =
     (case activeEditor s of
        None \<Rightarrow> s
      | Some i \<Rightarrow>
          if document = fsPath (visibleTextEditors s ! i) \<and> isHighlightingEnabled s then
            (let filePath = fsPath (visibleTextEditors s ! i)
             in triggerHighlighting env (clearBlameCache filePath s))
          else s)"

text \<open>
  The listener of \<^verbatim>\<open>webview.onDidReceiveMessage\<close>. \<^verbatim>\<open>updateFilesForCommits\<close> and
  the \<^verbatim>\<open>applyHighlighting\<close> calls of \<^verbatim>\<open>triggerHighlighting\<close> are started without
  \<^verbatim>\<open>await\<close>: what \<^verbatim>\<open>updateFilesForCommits\<close> would throw is not thrown to the
  listener, and here each call runs to its end in the order in which it is started. In
  the extension the calls overlap at their git commands. For a file that is touched by an
  active commit and also open in a visible editor, the entry of the file index is written
  by both, and the one that answers last wins: here that is always
  \<^verbatim>\<open>applyHighlighting\<close>, in the extension it need not be. A message that arrives
  while such calls are still running is not modelled either.
\<close>

fun onDidReceiveMessage :: "host_env \<Rightarrow> message \<Rightarrow> state \<Rightarrow> state" where
  "onDidReceiveMessage env (UpdateCommitHashes newHashes) s =
     saveState
       (if JSON_stringify (commitHashes s) \<noteq> JSON_stringify newHashes then
          (let s1 = clearAllBlameCache (s\<lparr>commitHashes := newHashes\<rparr>)
           in if isHighlightingEnabled s1 \<and> commitHashes s1 \<noteq> [] then
                triggerHighlighting env (snd (updateFilesForCommits env (commitHashes s1) s1))
              else s1)
        else s)"
| "onDidReceiveMessage env (ToggleHighlighting v) s =
     saveState
       (let s1 = s\<lparr>isHighlightingEnabled := v\<rparr>
        in if isHighlightingEnabled s1 then
             triggerHighlighting env
               (if commitHashes s1 \<noteq> [] then snd (updateFilesForCommits env (commitHashes s1) s1)
                else s1)
           else clearAllHighlights s1)"
| "onDidReceiveMessage env ViewStateRestored s =
     emit (PostRestoreState (commitHashes s) (isHighlightingEnabled s)) s"

section \<open>Notions the properties are stated with\<close>

text \<open>The key the parser files a line of the blame output under, if any.\<close>

definition lineKey :: "string \<Rightarrow> string option" where
  "lineKey line = map_option (take 40) (matchWord line)"

text \<open>The pairs (line number, key) a hash map holds, and the pairs the loop adds.\<close>

definition attributed :: "(string \<times> nat list) list \<Rightarrow> (nat \<times> string) set" where
  "attributed m = {(n, k). \<exists>ns. (k, ns) \<in> set m \<and> n \<in> set ns}"

fun keyedLines :: "nat \<Rightarrow> string list \<Rightarrow> (nat \<times> string) list" where
  "keyedLines i [] = []"
| "keyedLines i (line # rest) =
     (case lineKey line of None \<Rightarrow> keyedLines (Suc i) rest
      | Some k \<Rightarrow> (i, k) # keyedLines (Suc i) rest)"

text \<open>The character an escape letter of \<^verbatim>\<open>JSON.stringify\<close> stands for.\<close>

definition unescapeLetter :: "char \<Rightarrow> char" where
  "unescapeLetter x =
     (if x = CHR ''b'' then CHR 0x08 else if x = CHR ''t'' then CHR 0x09
      else if x = CHR ''n'' then CHR 0x0A else if x = CHR ''f'' then CHR 0x0C
      else if x = CHR ''r'' then CHR 0x0D else x)"

text \<open>
  What the blame query of a file yields on a cache miss (\<open>None\<close> when the file has no
  workspace folder or the command fails), what \<^verbatim>\<open>getBlameInfoForFile\<close> returns for a
  given cache, and the cache it leaves.
\<close>

definition queryBlame :: "host_env \<Rightarrow> path \<Rightarrow> BlameInfo list option" where
  "queryBlame env filePath =
     (case getWorkspaceFolder env filePath of
        None \<Rightarrow> None
      | Some workspaceFolder \<Rightarrow>
          (case exec env (blameCommand (path_relative env workspaceFolder filePath)) workspaceFolder of
             Inl err \<Rightarrow> None
           | Inr stdout \<Rightarrow> Some (parseBlame stdout)))"

definition blameResult :: "host_env \<Rightarrow> path \<Rightarrow> (path \<rightharpoonup> BlameInfo list) \<Rightarrow> BlameInfo list" where
  "blameResult env filePath cache =
     (case cache filePath of
        Some cached \<Rightarrow> cached
      | None \<Rightarrow> (case queryBlame env filePath of Some r \<Rightarrow> r | None \<Rightarrow> []))"

definition cacheAfter ::
  "host_env \<Rightarrow> path \<Rightarrow> (path \<rightharpoonup> BlameInfo list) \<Rightarrow> (path \<rightharpoonup> BlameInfo list)" where
  "cacheAfter env filePath cache =
     (case cache filePath of
        Some cached \<Rightarrow> cache
      | None \<Rightarrow> (case queryBlame env filePath of Some r \<Rightarrow> cache(filePath \<mapsto> r) | None \<Rightarrow> cache))"

text \<open>The editors and the file index \<^verbatim>\<open>applyHighlighting\<close> leaves.\<close>

definition editorsAfter ::
  "host_env \<Rightarrow> nat \<Rightarrow> string list \<Rightarrow> (path \<rightharpoonup> BlameInfo list) \<Rightarrow> TextEditor list \<Rightarrow> TextEditor list" where
  "editorsAfter env i hashes cache editors =
     (let editor = editors ! i; r = blameResult env (fsPath editor) cache
      in if hashes = [] \<or> \<not> i < length editors \<or> r = [] then editors
         else (case collectDecorations editor hashes r of
                 Inl err \<Rightarrow> editors
               | Inr ds \<Rightarrow> editors[i := setDecorations ds editor]))"

definition filesAfter ::
  "host_env \<Rightarrow> nat \<Rightarrow> string list \<Rightarrow> (path \<rightharpoonup> BlameInfo list) \<Rightarrow> TextEditor list \<Rightarrow>
   (path \<rightharpoonup> HighlightedFileInfo) \<Rightarrow> (path \<rightharpoonup> HighlightedFileInfo)" where
  "filesAfter env i hashes cache editors files =
     (let editor = editors ! i; r = blameResult env (fsPath editor) cache
      in if hashes = [] \<or> \<not> i < length editors \<or> r = [] then files
         else (case collectDecorations editor hashes r of
                 Inl err \<Rightarrow> files
               | Inr ds \<Rightarrow>
                   if ds \<noteq> [] then files(fsPath editor \<mapsto> \<lparr>uri = fsPath editor, highlightCount = length ds\<rparr>)
                   else files(fsPath editor := None)))"

text \<open>
  The decorations of one entry of a record, the entries whose hash is among the active
  identifiers, whether the lines of some entries are lines of an editor's document, the
  line list a record holds for a hash, and the partition invariant of a record (no hash
  twice, no line twice).
\<close>

definition decorationsOf :: "BlameInfo \<Rightarrow> Decoration list" where
  "decorationsOf b = map (\<lambda>n. \<lparr>range_line = n, hoverMessage = ''Commit: '' @ hash b\<rparr>) (lines b)"

definition matching :: "string list \<Rightarrow> BlameInfo list \<Rightarrow> BlameInfo list" where
  "matching hashes r = filter (\<lambda>b. hash b \<in> set hashes) r"

definition linesInDocument :: "TextEditor \<Rightarrow> BlameInfo list \<Rightarrow> bool" where
  "linesInDocument editor bs = list_all (\<lambda>b. list_all (\<lambda>n. n < lineCount editor) (lines b)) bs"

definition recordLines :: "BlameInfo list \<Rightarrow> string \<Rightarrow> nat list" where
  "recordLines r h = (case find (\<lambda>b. hash b = h) r of None \<Rightarrow> [] | Some b \<Rightarrow> lines b)"

definition wf_record :: "BlameInfo list \<Rightarrow> bool" where
  "wf_record r = (distinct (map hash r) \<and> distinct (concat (map lines r)))"

text \<open>The invariant of the cache: every cached record is a partition.\<close>

definition cache_inv :: "state \<Rightarrow> bool" where
  "cache_inv s = (\<forall>p r. blameCache s p = Some r \<longrightarrow> wf_record r)"

text \<open>
  The states the extension can be in: it starts with empty maps, no identifiers and
  highlighting off; the host changes the window at will; the three listeners run.
\<close>

inductive reachable :: "state \<Rightarrow> bool" where
  start: "blameCache s = Map.empty \<Longrightarrow> highlightedFiles s = Map.empty \<Longrightarrow> commitHashes s = [] \<Longrightarrow>
          \<not> isHighlightingEnabled s \<Longrightarrow> reachable s"
| window: "reachable s \<Longrightarrow> reachable (s\<lparr>visibleTextEditors := editors, activeTextEditor := active\<rparr>)"
| active: "reachable s \<Longrightarrow> reachable (onDidChangeActiveTextEditor env editor s)"
| edit: "reachable s \<Longrightarrow> reachable (onDidChangeTextDocument env document s)"
| message: "reachable s \<Longrightarrow> reachable (onDidReceiveMessage env m s)"

text \<open>
  In the words of the specification: the commit an identifier stands for (a symbolic one
  is looked up with \<^verbatim>\<open>git log --grep\<close>; \<open>None\<close> when nothing is found or the query
  fails), the paths a commit changed, and the touched files of a list of identifiers,
  as absolute paths.
\<close>

definition resolvedCommit :: "host_env \<Rightarrow> path \<Rightarrow> string \<Rightarrow> string option" where
  "resolvedCommit env root identifier =
     (if startsWith_I identifier then
        (case exec env (logGrepCommand identifier) root of
           Inl err \<Rightarrow> None
         | Inr stdout \<Rightarrow> if trim stdout = [] then None else Some (trim stdout))
      else Some identifier)"

definition changedFiles :: "host_env \<Rightarrow> path \<Rightarrow> string \<Rightarrow> string list" where
  "changedFiles env root commit =
     (case exec env (diffTreeCommand commit) root of
        Inl err \<Rightarrow> []
      | Inr stdout \<Rightarrow> filter (\<lambda>line. trim line \<noteq> []) (split_nl stdout))"

definition touchedFiles :: "host_env \<Rightarrow> path \<Rightarrow> string list \<Rightarrow> path set" where
  "touchedFiles env root identifiers =
     (\<Union>identifier \<in> set identifiers.
        case resolvedCommit env root identifier of
          None \<Rightarrow> {}
        | Some commit \<Rightarrow> path_join env root ` set (changedFiles env root commit))"

text \<open>A file index with the entries of touched files written over it.\<close>

definition touchedEntry :: "path set \<Rightarrow> (path \<rightharpoonup> HighlightedFileInfo) \<Rightarrow> (path \<rightharpoonup> HighlightedFileInfo)" where
  "touchedEntry T files = (\<lambda>p. if p \<in> T then Some \<lparr>uri = p, highlightCount = 1\<rparr> else files p)"

text \<open>
  The cache after the blame of a set of files has been asked for, and the decorations
  \<^verbatim>\<open>applyHighlighting\<close> computes for an editor (none when \<^verbatim>\<open>lineAt\<close> throws).
\<close>

definition cacheAfterAll ::
  "host_env \<Rightarrow> path set \<Rightarrow> (path \<rightharpoonup> BlameInfo list) \<Rightarrow> (path \<rightharpoonup> BlameInfo list)" where
  "cacheAfterAll env P cache =
     (\<lambda>p. if p \<in> P then (case cache p of Some r \<Rightarrow> Some r | None \<Rightarrow> queryBlame env p)
          else cache p)"

definition planned :: "host_env \<Rightarrow> string list \<Rightarrow> (path \<rightharpoonup> BlameInfo list) \<Rightarrow> TextEditor \<Rightarrow> Decoration list" where
  "planned env hashes cache editor =
     (case collectDecorations editor hashes (blameResult env (fsPath editor) cache) of
        Inl err \<Rightarrow> []
      | Inr ds \<Rightarrow> ds)"

text \<open>
  The state after the editors at the positions \<open>J\<close> of the window of \<open>s\<close> have been
  highlighted with the identifiers of \<open>s\<close>.
\<close>

definition highlighted :: "host_env \<Rightarrow> state \<Rightarrow> nat set \<Rightarrow> state \<Rightarrow> bool" where
  "highlighted env s J s' =
     (commitHashes s' = commitHashes s \<and>
      isHighlightingEnabled s' = isHighlightingEnabled s \<and>
      activeTextEditor s' = activeTextEditor s \<and>
      length (visibleTextEditors s') = length (visibleTextEditors s) \<and>
      (\<forall>j < length (visibleTextEditors s).
         visibleTextEditors s' ! j =
           (if j \<in> J then setDecorations (planned env (commitHashes s) (blameCache s) (visibleTextEditors s ! j))
                            (visibleTextEditors s ! j)
            else visibleTextEditors s ! j)) \<and>
      blameCache s' = cacheAfterAll env ((\<lambda>j. fsPath (visibleTextEditors s ! j)) ` J) (blameCache s) \<and>
      (\<forall>p. p \<notin> fsPath ` set (visibleTextEditors s) \<longrightarrow> highlightedFiles s' p = highlightedFiles s p))"

section \<open>A small repository, for the concrete instances\<close>

text \<open>
  Two commits, and the output of \<^verbatim>\<open>git blame -l\<close> for a file of five lines: three
  lines of the first commit, two of the second (the example of the specification).
\<close>

definition hashA :: string where
  "hashA = replicate 40 (CHR ''a'')"

definition hashB :: string where
  "hashB = replicate 40 (CHR ''b'')"

definition example_stdout :: string where
  "example_stdout =
     hashA @ '' (Ann 2024-01-01 10:00:00 +0000 1) alpha'' @ [CHR 0x0A] @
     hashA @ '' (Ann 2024-01-01 10:00:00 +0000 2) beta'' @ [CHR 0x0A] @
     hashA @ '' (Ann 2024-01-01 10:00:00 +0000 3) gamma'' @ [CHR 0x0A] @
     hashB @ '' (Bob 2024-02-02 11:00:00 +0000 4) delta'' @ [CHR 0x0A] @
     hashB @ '' (Bob 2024-02-02 11:00:00 +0000 5) epsilon'' @ [CHR 0x0A]"

text \<open>
  The output for a file of two lines whose first line comes from a boundary commit:
  git prints a caret in front of the hash of a boundary commit.
\<close>

definition boundary_stdout :: string where
  "boundary_stdout =
     ''^'' @ replicate 39 (CHR ''c'') @ '' (Ann 2023-12-31 09:00:00 +0000 1) alpha'' @ [CHR 0x0A] @
     hashB @ '' (Bob 2024-02-02 11:00:00 +0000 2) beta'' @ [CHR 0x0A]"

text \<open>
  The host: one workspace folder \<^verbatim>\<open>/w\<close>; \<^verbatim>\<open>git blame\<close> answers for \<^verbatim>\<open>a.ts\<close>,
  \<^verbatim>\<open>git diff-tree\<close> for the second commit, \<^verbatim>\<open>git log --grep\<close> resolves the
  Change-Id \<^verbatim>\<open>I4f2c\<close> to the second commit; every other command fails.
\<close>

definition example_env :: host_env where
  "example_env =
     \<lparr>getWorkspaceFolder = (\<lambda>p. if take 3 p = ''/w/'' then Some ''/w'' else None),
      workspaceFolders = [''/w''],
      exec = (\<lambda>cmd cwd.
        if cwd = ''/w'' \<and> cmd = blameCommand ''a.ts'' then Inr example_stdout
        else if cwd = ''/w'' \<and> cmd = diffTreeCommand hashB
          then Inr (''a.ts'' @ [CHR 0x0A] @ ''lib/b.ts'' @ [CHR 0x0A])
        else if cwd = ''/w'' \<and> cmd = logGrepCommand ''I4f2c'' then Inr (hashB @ [CHR 0x0A])
        else Inl ''Error: Command failed''),
      path_relative = (\<lambda>from to. drop (length from + 1) to),
      path_join = (\<lambda>a b. a @ ''/'' @ b)\<rparr>"

text \<open>
  A window with one editor, active, on \<^verbatim>\<open>/w/a.ts\<close> (five lines and the empty line
  after the last line feed), nothing cached, the second commit entered, highlighting on.
\<close>

definition example_editor :: TextEditor where
  "example_editor =
     \<lparr>fsPath = ''/w/a.ts'', lineCount = 6, highlightDecorations = [], minimapDecorations = []\<rparr>"

definition example_state :: state where
  "example_state =
     \<lparr>blameCache = Map.empty, highlightedFiles = Map.empty, commitHashes = [hashB],
      isHighlightingEnabled = True, visibleTextEditors = [example_editor],
      activeTextEditor = Some 0, trace = []\<rparr>"

text \<open>
  The same window after the user has deleted the last lines in the editor without saving:
  the document has four lines, the file on disk (which git reads) still has five.
\<close>

definition edited_state :: state where
  "edited_state = example_state\<lparr>visibleTextEditors := [example_editor\<lparr>lineCount := 4\<rparr>]\<rparr>"

text \<open>The example window after its editor has been highlighted.\<close>

definition highlighted_state :: state where
  "highlighted_state = applyHighlighting example_env 0 [hashB] (clearHighlighting 0 example_state)"

text \<open>The example window with an entry in the file index left from an earlier identifier.\<close>

definition stale_state :: state where
  "stale_state =
     example_state\<lparr>highlightedFiles := [''/w/old.ts'' \<mapsto> \<lparr>uri = ''/w/old.ts'', highlightCount = 7\<rparr>]\<rparr>"



text \<open>
  The example window with both commits entered, and a record cached for a file that is
  not open.
\<close>

definition reorder_state :: state where
  "reorder_state =
     example_state\<lparr>commitHashes := [hashA, hashB],
                   blameCache := [''/w/old.ts'' \<mapsto> [\<lparr>hash = hashA, lines = [0]\<rparr>]]\<rparr>"

section \<open>The parser\<close>

lemma whitespace_chars_not_word:
  "\<not> isWordChar (CHR 0x09)" "\<not> isWordChar (CHR 0x0A)" "\<not> isWordChar (CHR 0x0B)"
  "\<not> isWordChar (CHR 0x0C)" "\<not> isWordChar (CHR 0x0D)" "\<not> isWordChar (CHR 0x20)"
  "\<not> isWordChar (CHR 0xA0)"
  by (simp_all add: isWordChar_def)
lemma ws_not_word: "isWhiteSpace c \<Longrightarrow> \<not> isWordChar c"
  unfolding isWhiteSpace_def using whitespace_chars_not_word by auto

lemma trim_empty: "trim s = [] \<Longrightarrow> dropWhile isWhiteSpace s = []"
proof (rule ccontr)
  assume t: "trim s = []" and n: "dropWhile isWhiteSpace s \<noteq> []"
  define d where "d = dropWhile isWhiteSpace s"
  from n have h: "\<not> isWhiteSpace (hd d)" unfolding d_def by (rule hd_dropWhile)
  from t have "dropWhile isWhiteSpace (rev d) = []" unfolding trim_def d_def by (simp only: rev_is_Nil_conv)
  then have "\<forall>x \<in> set (rev d). isWhiteSpace x" by (simp only: dropWhile_eq_Nil_conv)
  moreover from n have "hd d \<in> set (rev d)" unfolding d_def by simp
  ultimately show False using h by blast
qed

lemma matchWord_blank: "line = [] \<or> trim line = [] \<Longrightarrow> matchWord line = None"
proof -
  assume a: "line = [] \<or> trim line = []"
  have "takeWhile isWordChar line = []"
  proof (cases line)
    case Nil then show ?thesis by simp
  next
    case (Cons c cs)
    with a have "trim line = []" by simp
    then have "dropWhile isWhiteSpace line = []" by (rule trim_empty)
    with Cons have "isWhiteSpace c" by (simp split: if_splits)
    then have "\<not> isWordChar c" by (rule ws_not_word)
    with Cons show ?thesis by simp
  qed
  then show ?thesis by (simp add: matchWord_def)
qed

lemma blameLoop_step:
  "blameLoop i (line # rest) m =
     (case lineKey line of None \<Rightarrow> blameLoop (Suc i) rest m
      | Some k \<Rightarrow> blameLoop (Suc i) rest (hashMap_push k i m))"
  using matchWord_blank[of line]
  by (auto simp: lineKey_def split: option.splits)

lemma push_keys:
  "map fst (hashMap_push h i m) = (if h \<in> fst ` set m then map fst m else map fst m @ [h])"
  by (induction h i m rule: hashMap_push.induct) (auto simp: image_iff)

lemma push_distinct_keys: "distinct (map fst m) \<Longrightarrow> distinct (map fst (hashMap_push h i m))"
  by (simp add: push_keys)

lemma push_concat_set:
  "set (concat (map snd (hashMap_push h i m))) = insert i (set (concat (map snd m)))"
  by (induction h i m rule: hashMap_push.induct) (simp_all add: insert_commute Un_insert_left Un_insert_right del: set_concat)

lemma push_concat_distinct:
  "distinct (concat (map snd m)) \<Longrightarrow> i \<notin> set (concat (map snd m)) \<Longrightarrow>
   distinct (concat (map snd (hashMap_push h i m)))"
proof (induction h i m rule: hashMap_push.induct)
  case (1 h i) then show ?case by simp
next
  case (2 h i k ns m)
  show ?case
  proof (cases "k = h")
    case True with 2 show ?thesis by auto
  next
    case False
    with 2 have "distinct (concat (map snd (hashMap_push h i m)))" by simp
    moreover have "set (concat (map snd (hashMap_push h i m))) = insert i (set (concat (map snd m)))"
      by (rule push_concat_set)
    ultimately show ?thesis using 2 False by (auto simp del: set_concat)
  qed
qed

lemma push_mem:
  "(k, ns) \<in> set (hashMap_push h i m) \<Longrightarrow>
     (k, ns) \<in> set m \<or> (k = h \<and> i \<in> set ns \<and> (ns = [i] \<or> (\<exists>old. (k, old) \<in> set m \<and> ns = old @ [i])))"
  by (induction h i m rule: hashMap_push.induct) (auto split: if_splits)

lemma push_has:
  "\<exists>ns. (h, ns) \<in> set (hashMap_push h i m) \<and> i \<in> set ns"
  by (induction h i m rule: hashMap_push.induct) auto

lemma push_mono:
  "(k, ns) \<in> set m \<Longrightarrow> n \<in> set ns \<Longrightarrow> \<exists>ns'. (k, ns') \<in> set (hashMap_push h i m) \<and> n \<in> set ns'"
  by (induction h i m rule: hashMap_push.induct) auto

lemma attributed_push: "attributed (hashMap_push h i m) = insert (i, h) (attributed m)"
proof (rule set_eqI, clarify)
  fix n k
  show "((n, k) \<in> attributed (hashMap_push h i m)) = ((n, k) \<in> insert (i, h) (attributed m))"
  proof
    assume "(n, k) \<in> attributed (hashMap_push h i m)"
    then obtain ns where a: "(k, ns) \<in> set (hashMap_push h i m)" "n \<in> set ns"
      by (auto simp: attributed_def)
    from push_mem[OF a(1)] a(2) show "(n, k) \<in> insert (i, h) (attributed m)"
      by (auto simp: attributed_def)
  next
    assume "(n, k) \<in> insert (i, h) (attributed m)"
    then show "(n, k) \<in> attributed (hashMap_push h i m)"
      using push_has[of h i m] push_mono[of k _ m n h i]
      by (auto simp: attributed_def)
  qed
qed

lemma attributed_lines: "fst ` attributed m = set (concat (map snd m))"
  by (force simp: attributed_def)

lemma keyedLines_set:
  "set (keyedLines i ls) = {(i + j, k) | j k. j < length ls \<and> lineKey (ls ! j) = Some k}"
proof (induction ls arbitrary: i)
  case Nil then show ?case by simp
next
  case (Cons l ls)
  have split: "\<And>P. {(i + j, k) | j k. j < length (l # ls) \<and> P j k}
      = {(i, k) | k. P 0 k} \<union> {(Suc i + j, k) | j k. j < length ls \<and> P (Suc j) k}"
  proof (rule set_eqI, clarify)
    fix P a b
    show "((a, b) \<in> {(i + j, k) | j k. j < length (l # ls) \<and> P j k}) =
          ((a, b) \<in> {(i, k) | k. P 0 k} \<union> {(Suc i + j, k) | j k. j < length ls \<and> P (Suc j) k})"
    proof
      assume "(a, b) \<in> {(i + j, k) | j k. j < length (l # ls) \<and> P j k}"
      then obtain j where j: "a = i + j" "j < length (l # ls)" "P j b" by auto
      show "(a, b) \<in> {(i, k) | k. P 0 k} \<union> {(Suc i + j, k) | j k. j < length ls \<and> P (Suc j) k}"
      proof (cases j)
        case 0 with j show ?thesis by simp
      next
        case (Suc j') with j show ?thesis by auto
      qed
    next
      assume "(a, b) \<in> {(i, k) | k. P 0 k} \<union> {(Suc i + j, k) | j k. j < length ls \<and> P (Suc j) k}"
      then consider "a = i" "P 0 b" | j where "a = Suc i + j" "j < length ls" "P (Suc j) b" by auto
      then show "(a, b) \<in> {(i + j, k) | j k. j < length (l # ls) \<and> P j k}"
      proof cases
        case 1 then show ?thesis by (auto intro: exI[of _ 0])
      next
        case 2 then show ?thesis by (auto intro: exI[of _ "Suc j"])
      qed
    qed
  qed
  show ?case
    unfolding split[of "\<lambda>j k. lineKey ((l # ls) ! j) = Some k"]
    by (auto simp: Cons.IH split: option.splits)
qed

lemma keyedLines_ge: "(n, k) \<in> set (keyedLines i ls) \<Longrightarrow> i \<le> n"
  by (auto simp: keyedLines_set)

lemma keyedLines_distinct: "distinct (map fst (keyedLines i ls))"
proof (induction ls arbitrary: i)
  case Nil then show ?case by simp
next
  case (Cons l ls)
  have "\<And>k. (i, k) \<notin> set (keyedLines (Suc i) ls)"
    using keyedLines_ge[of i _ "Suc i" ls] by auto
  then have "i \<notin> fst ` set (keyedLines (Suc i) ls)" by auto
  with Cons show ?case by (auto split: option.splits)
qed

lemma blameLoop_fold:
  "blameLoop i ls m = fold (\<lambda>(n, k). hashMap_push k n) (keyedLines i ls) m"
  by (induction ls arbitrary: i m) (simp_all add: blameLoop_step del: blameLoop.simps(2) split: option.splits)

lemma fold_push_keys:
  "distinct (map fst m) \<Longrightarrow> distinct (map fst (fold (\<lambda>(n, k). hashMap_push k n) ps m))"
  by (induction ps arbitrary: m) (auto simp: push_distinct_keys)

lemma fold_push_attributed:
  "attributed (fold (\<lambda>(n, k). hashMap_push k n) ps m) = set ps \<union> attributed m"
  by (induction ps arbitrary: m) (auto simp: attributed_push)

lemma fold_push_distinct:
  "distinct (concat (map snd m)) \<Longrightarrow> distinct (map fst ps) \<Longrightarrow>
   fst ` set ps \<inter> set (concat (map snd m)) = {} \<Longrightarrow>
   distinct (concat (map snd (fold (\<lambda>(n, k). hashMap_push k n) ps m)))"
proof (induction ps arbitrary: m)
  case Nil then show ?case by simp
next
  case (Cons p ps)
  obtain n k where p: "p = (n, k)" by (cases p)
  have 1: "distinct (concat (map snd (hashMap_push k n m)))"
    using Cons.prems p by (intro push_concat_distinct) auto
  have 2: "fst ` set ps \<inter> set (concat (map snd (hashMap_push k n m))) = {}"
    using Cons.prems p by (auto simp: push_concat_set simp del: set_concat)
  from Cons.IH[OF 1 _ 2] Cons.prems(2) p show ?case by simp
qed

lemma fold_push_nonempty:
  "\<forall>(k, ns) \<in> set m. ns \<noteq> [] \<Longrightarrow>
   \<forall>(k, ns) \<in> set (fold (\<lambda>(n, k). hashMap_push k n) ps m). ns \<noteq> []"
proof (induction ps arbitrary: m)
  case Nil then show ?case by simp
next
  case (Cons p ps)
  obtain n k where p: "p = (n, k)" by (cases p)
  have "\<forall>(k', ns) \<in> set (hashMap_push k n m). ns \<noteq> []"
    using Cons.prems push_mem[of _ _ k n m] by fastforce
  from Cons.IH[OF this] p show ?case by simp
qed

lemma blameLoop_attributed:
  "attributed (blameLoop i ls m) = set (keyedLines i ls) \<union> attributed m"
  by (simp add: blameLoop_fold fold_push_attributed)

lemma attributed_parse:
  "((n, h) \<in> attributed (blameLoop 0 (split_nl out) [])) =
     (\<exists>b \<in> set (parseBlame out). hash b = h \<and> n \<in> set (lines b))"
  by (force simp: attributed_def parseBlame_def)

lemma lineKey_Some: "(lineKey l = Some k) = (\<exists>w. matchWord l = Some w \<and> k = take 40 w)"
  by (auto simp: lineKey_def)

lemma parseBlame_mem:
  "(\<exists>b \<in> set (parseBlame out). hash b = h \<and> n \<in> set (lines b)) =
     (n < length (split_nl out) \<and> lineKey (split_nl out ! n) = Some h)"
  unfolding attributed_parse[symmetric] blameLoop_attributed keyedLines_set
  by (auto simp: attributed_def)

lemma parseBlame_hashes: "distinct (map hash (parseBlame out))"
proof -
  have "map hash (parseBlame out) = map fst (blameLoop 0 (split_nl out) [])"
    by (simp add: parseBlame_def comp_def case_prod_beta)
  then show ?thesis by (simp add: blameLoop_fold fold_push_keys)
qed

lemma parseBlame_lines: "distinct (concat (map lines (parseBlame out)))"
proof -
  have "map lines (parseBlame out) = map snd (blameLoop 0 (split_nl out) [])"
    by (simp add: parseBlame_def comp_def case_prod_beta)
  moreover have "distinct (concat (map snd (blameLoop 0 (split_nl out) [])))"
    unfolding blameLoop_fold by (rule fold_push_distinct) (simp_all add: keyedLines_distinct)
  ultimately show ?thesis by simp
qed

lemma parseBlame_wf: "wf_record (parseBlame out)"
  by (simp add: wf_record_def parseBlame_hashes parseBlame_lines)

lemma parseBlame_nonempty: "b \<in> set (parseBlame out) \<Longrightarrow> lines b \<noteq> []"
  using fold_push_nonempty[of "[]" "keyedLines 0 (split_nl out)"]
  by (auto simp: parseBlame_def blameLoop_fold)

lemma distinct_concat_disjoint:
  "distinct (concat (map f r)) \<Longrightarrow> b \<in> set r \<Longrightarrow> b' \<in> set r \<Longrightarrow> f b \<noteq> f b' \<Longrightarrow>
   set (f b) \<inter> set (f b') = {}"
  by (induction r) auto

lemma wf_record_disjoint:
  assumes "wf_record r" "b \<in> set r" "b' \<in> set r" "b \<noteq> b'"
  shows "set (lines b) \<inter> set (lines b') = {}"
proof (cases "lines b = lines b'")
  case False
  with assms show ?thesis by (auto simp: wf_record_def dest: distinct_concat_disjoint)
next
  case True
  from assms(1) have "inj_on hash (set r)" by (simp add: wf_record_def distinct_map)
  with assms have "hash b \<noteq> hash b'" by (auto dest: inj_onD)
  have "lines b = []"
  proof (rule ccontr)
    assume "lines b \<noteq> []"
    then obtain n where n: "n \<in> set (lines b)" by (cases "lines b") auto
    from assms(1) have d: "distinct (concat (map lines r))" by (simp add: wf_record_def)
    from assms(1) have dr: "distinct r" unfolding wf_record_def using distinct_map by blast
    from assms(2) obtain xs ys where r: "r = xs @ b # ys" by (auto simp: in_set_conv_decomp)
    with dr assms(3,4) have "b' \<in> set xs \<or> b' \<in> set ys" by auto
    with d r n True show False by auto
  qed
  then show ?thesis by simp
qed

section \<open>\<^verbatim>\<open>JSON.stringify\<close> is injective on arrays of strings\<close>

lemma hexDigit_inj: "i < 16 \<Longrightarrow> j < 16 \<Longrightarrow> hexDigit i = hexDigit j \<Longrightarrow> i = j"
proof -
  have d: "distinct ''0123456789abcdef''" by simp
  have l: "length ''0123456789abcdef'' = 16" by simp
  show "i < 16 \<Longrightarrow> j < 16 \<Longrightarrow> hexDigit i = hexDigit j \<Longrightarrow> i = j"
    unfolding hexDigit_def using nth_eq_iff_index_eq[OF d, of i j] l by simp
qed

lemma of_char_inj: "(of_char c :: nat) = of_char d \<Longrightarrow> c = d"
  by (metis char_of_char)

lemma control_code_inj:
  assumes "(of_char c :: nat) < 32" "(of_char d :: nat) < 32"
    and "hexDigit ((of_char c :: nat) div 16) = hexDigit ((of_char d :: nat) div 16)"
    and "hexDigit ((of_char c :: nat) mod 16) = hexDigit ((of_char d :: nat) mod 16)"
  shows "c = d"
proof -
  let ?n = "of_char c :: nat" and ?m = "of_char d :: nat"
  have "?n div 16 = ?m div 16" using assms(1-3) by (intro hexDigit_inj) auto
  moreover have "?n mod 16 = ?m mod 16" using assms(4) by (intro hexDigit_inj) auto
  ultimately have "?n = ?m" by (metis div_mult_mod_eq)
  then show ?thesis by (rule of_char_inj)
qed

lemma quoteChar_shape:
  "(quoteChar c = [c] \<and> c \<noteq> CHR 0x5C \<and> c \<noteq> CHR 0x22) \<or>
   (\<exists>x. quoteChar c = [CHR 0x5C, x] \<and> x \<noteq> CHR ''u'' \<and> c = unescapeLetter x) \<or>
   (quoteChar c = [CHR 0x5C, CHR ''u'', CHR ''0'', CHR ''0'',
         hexDigit ((of_char c :: nat) div 16), hexDigit ((of_char c :: nat) mod 16)] \<and>
      (of_char c :: nat) < 32)"
  by (simp add: quoteChar_def unescapeLetter_def)

lemma quoteChar_prefix_free:
  assumes "quoteChar c @ u = quoteChar d @ v"
  shows "c = d \<and> u = v"
  using quoteChar_shape[of c] quoteChar_shape[of d] assms
  by (elim disjE exE conjE) (auto dest: control_code_inj)

lemma quoteChar_no_quote: "quoteChar c @ u \<noteq> CHR 0x22 # v"
  using quoteChar_shape[of c] by auto

lemma quoted_body_inj:
  "concat (map quoteChar s) @ CHR 0x22 # u = concat (map quoteChar t) @ CHR 0x22 # v \<Longrightarrow>
   s = t \<and> u = v"
proof (induction s arbitrary: t)
  case Nil
  show ?case
  proof (cases t)
    case Nil with Nil.prems show ?thesis by simp
  next
    case (Cons d t')
    with Nil.prems have "quoteChar d @ (concat (map quoteChar t') @ CHR 0x22 # v) = CHR 0x22 # u"
      by simp
    with quoteChar_no_quote show ?thesis by blast
  qed
next
  case (Cons c s)
  show ?case
  proof (cases t)
    case Nil
    with Cons.prems show ?thesis using quoteChar_no_quote[of c] by auto
  next
    case (Cons d t')
    with Cons.prems have
      "quoteChar c @ (concat (map quoteChar s) @ CHR 0x22 # u)
       = quoteChar d @ (concat (map quoteChar t') @ CHR 0x22 # v)" by simp
    from quoteChar_prefix_free[OF this] Cons.IH[of t'] Cons show ?thesis by simp
  qed
qed

lemma quoteJSONString_inj:
  "quoteJSONString s @ u = quoteJSONString t @ v \<Longrightarrow> s = t \<and> u = v"
  using quoted_body_inj[of s u t v] by (simp add: quoteJSONString_def)

lemma quoteJSONString_hd: "quoteJSONString s = CHR 0x22 # tl (quoteJSONString s)"
  by (simp add: quoteJSONString_def)

lemma joinComma_inj:
  "joinComma (map quoteJSONString xs) @ '']'' = joinComma (map quoteJSONString ys) @ '']'' \<Longrightarrow>
   xs = ys"
proof (induction xs arbitrary: ys)
  case Nil
  show ?case
  proof (cases ys)
    case Nil then show ?thesis by simp
  next
    case (Cons y ys')
    with Nil.prems show ?thesis
      using quoteJSONString_hd[of y] by (cases ys') (auto simp: quoteJSONString_def)
  qed
next
  case (Cons x xs)
  show ?case
  proof (cases ys)
    case Nil
    with Cons.prems show ?thesis by (cases xs) (auto simp: quoteJSONString_def)
  next
    case ys: (Cons y ys')
    show ?thesis
    proof (cases xs)
      case Nil
      show ?thesis
      proof (cases ys')
        case Nil
        with Cons.prems ys \<open>xs = []\<close> show ?thesis using quoteJSONString_inj[of x "'']''" y "'']''"] by simp
      next
        case (Cons y' ys'')
        with Cons.prems ys \<open>xs = []\<close> show ?thesis
          using quoteJSONString_inj[of x "'']''" y "'','' @ joinComma (map quoteJSONString (y' # ys'')) @ '']''"]
          by simp
      qed
    next
      case xs: (Cons x' xs')
      show ?thesis
      proof (cases ys')
        case Nil
        with Cons.prems ys xs show ?thesis
          using quoteJSONString_inj[of x "'','' @ joinComma (map quoteJSONString (x' # xs')) @ '']''" y "'']''"]
          by simp
      next
        case ys': (Cons y' ys'')
        from Cons.prems ys xs ys' have
          "quoteJSONString x @ ('','' @ joinComma (map quoteJSONString xs) @ '']'')
           = quoteJSONString y @ ('','' @ joinComma (map quoteJSONString ys') @ '']'')" by simp
        from quoteJSONString_inj[OF this] Cons.IH[of ys'] ys show ?thesis by simp
      qed
    qed
  qed
qed

lemma JSON_stringify_inj: "(JSON_stringify xs = JSON_stringify ys) = (xs = ys)"
  using joinComma_inj[of xs ys] by (auto simp: JSON_stringify_def)

section \<open>The service, field by field\<close>

lemma getBlame_result:
  "fst (getBlameInfoForFile env p s) = Inr (blameResult env p (blameCache s))"
  by (simp add: getBlameInfoForFile_def getBlameInfoForFile_try_def blameResult_def queryBlame_def
      Let_def emit_def split: option.splits sum.splits)

lemma getBlame_cache:
  "blameCache (snd (getBlameInfoForFile env p s)) = cacheAfter env p (blameCache s)"
  by (simp add: getBlameInfoForFile_def getBlameInfoForFile_try_def cacheAfter_def queryBlame_def
      Let_def emit_def split: option.splits sum.splits)

lemma getBlame_frame:
  "highlightedFiles (snd (getBlameInfoForFile env p s)) = highlightedFiles s"
  "commitHashes (snd (getBlameInfoForFile env p s)) = commitHashes s"
  "isHighlightingEnabled (snd (getBlameInfoForFile env p s)) = isHighlightingEnabled s"
  "visibleTextEditors (snd (getBlameInfoForFile env p s)) = visibleTextEditors s"
  "activeTextEditor (snd (getBlameInfoForFile env p s)) = activeTextEditor s"
  by (simp_all add: getBlameInfoForFile_def getBlameInfoForFile_try_def
      Let_def emit_def split: option.splits sum.splits)

lemma blameResult_after:
  "blameResult env p (cacheAfter env p cache) = blameResult env p cache"
  by (simp add: blameResult_def cacheAfter_def split: option.splits)

lemma cacheAfter_idem:
  "cacheAfter env p (cacheAfter env p cache) = cacheAfter env p cache"
  by (simp add: cacheAfter_def split: option.splits)

lemma getBlame_split:
  "getBlameInfoForFile env p s = (Inr (blameResult env p (blameCache s)), snd (getBlameInfoForFile env p s))"
  using getBlame_result[of env p s] by (cases "getBlameInfoForFile env p s") simp

lemma applyHighlighting_editors:
  "visibleTextEditors (applyHighlighting env i hs s) =
     editorsAfter env i hs (blameCache s) (visibleTextEditors s)"
  unfolding applyHighlighting_def editorsAfter_def Let_def
  apply (subst getBlame_split)
  apply (simp add: getBlame_frame applyHighlighting_catch_def emit_def updateEditor_def
      refreshFileExplorerDecorations_def split: sum.splits)
  done

lemma applyHighlighting_files:
  "highlightedFiles (applyHighlighting env i hs s) =
     filesAfter env i hs (blameCache s) (visibleTextEditors s) (highlightedFiles s)"
  unfolding applyHighlighting_def filesAfter_def Let_def
  apply (subst getBlame_split)
  apply (simp add: getBlame_frame applyHighlighting_catch_def emit_def updateEditor_def
      refreshFileExplorerDecorations_def split: sum.splits)
  done

lemma applyHighlighting_cache:
  "blameCache (applyHighlighting env i hs s) =
     (if hs = [] \<or> \<not> i < length (visibleTextEditors s) then blameCache s
      else cacheAfter env (fsPath (visibleTextEditors s ! i)) (blameCache s))"
  unfolding applyHighlighting_def Let_def
  apply (subst getBlame_split)
  apply (simp add: getBlame_frame getBlame_cache applyHighlighting_catch_def emit_def updateEditor_def
      refreshFileExplorerDecorations_def split: sum.splits)
  done

lemma applyHighlighting_frame:
  "commitHashes (applyHighlighting env i hs s) = commitHashes s"
  "isHighlightingEnabled (applyHighlighting env i hs s) = isHighlightingEnabled s"
  "activeTextEditor (applyHighlighting env i hs s) = activeTextEditor s"
  unfolding applyHighlighting_def Let_def
  by (subst getBlame_split,
      simp add: getBlame_frame applyHighlighting_catch_def emit_def updateEditor_def
      refreshFileExplorerDecorations_def split: sum.splits)+

lemma clearHighlighting_fields:
  "blameCache (clearHighlighting i s) = blameCache s"
  "commitHashes (clearHighlighting i s) = commitHashes s"
  "isHighlightingEnabled (clearHighlighting i s) = isHighlightingEnabled s"
  "activeTextEditor (clearHighlighting i s) = activeTextEditor s"
  "visibleTextEditors (clearHighlighting i s) =
     (if i < length (visibleTextEditors s)
      then (visibleTextEditors s)[i := setDecorations [] (visibleTextEditors s ! i)]
      else visibleTextEditors s)"
  "highlightedFiles (clearHighlighting i s) =
     (if i < length (visibleTextEditors s)
      then (highlightedFiles s)(fsPath (visibleTextEditors s ! i) := None)
      else highlightedFiles s)"
  by (simp_all add: clearHighlighting_def Let_def updateEditor_def emit_def
      refreshFileExplorerDecorations_def)

section \<open>Decorations of a record\<close>

lemma lineDecorations_ok:
  "list_all (\<lambda>n. n < lineCount ed) ns \<Longrightarrow>
   lineDecorations ed h ns = Inr (map (\<lambda>n. \<lparr>range_line = n, hoverMessage = ''Commit: '' @ h\<rparr>) ns)"
  by (induction ns) (simp_all add: lineAt_def)

lemma lineDecorations_fail:
  "\<not> list_all (\<lambda>n. n < lineCount ed) ns \<Longrightarrow>
   lineDecorations ed h ns = Inl ''Error: Illegal value for `line`''"
  by (induction ns) (auto simp: lineAt_def split: sum.splits)

lemma collectDecorations_ok:
  "linesInDocument ed (matching hs r) \<Longrightarrow>
   collectDecorations ed hs r = Inr (concat (map decorationsOf (matching hs r)))"
  by (induction r) (auto simp: linesInDocument_def matching_def decorationsOf_def lineDecorations_ok)

lemma collectDecorations_fail:
  "\<not> linesInDocument ed (matching hs r) \<Longrightarrow>
   collectDecorations ed hs r = Inl ''Error: Illegal value for `line`''"
proof (induction r)
  case Nil then show ?case by (simp add: linesInDocument_def matching_def)
next
  case (Cons b r)
  show ?case
  proof (cases "hash b \<in> set hs")
    case False with Cons show ?thesis by (simp add: linesInDocument_def matching_def)
  next
    case True
    show ?thesis
    proof (cases "list_all (\<lambda>n. n < lineCount ed) (lines b)")
      case False
      with True show ?thesis by (simp add: lineDecorations_fail)
    next
      case ok: True
      with True Cons.prems have "\<not> linesInDocument ed (matching hs r)"
        by (simp add: linesInDocument_def matching_def)
      from Cons.IH[OF this] True ok show ?thesis by (simp add: lineDecorations_ok)
    qed
  qed
qed

lemma collectDecorations_lineCount:
  "lineCount ed' = lineCount ed \<Longrightarrow> collectDecorations ed' hs r = collectDecorations ed hs r"
proof -
  assume a: "lineCount ed' = lineCount ed"
  have "\<And>h ns. lineDecorations ed' h ns = lineDecorations ed h ns"
  proof -
    fix h ns show "lineDecorations ed' h ns = lineDecorations ed h ns"
      using a by (induction ns) (simp_all add: lineAt_def)
  qed
  then show ?thesis by (induction r) (simp_all split: sum.splits)
qed

lemma recordLines_mem:
  "distinct (map hash r) \<Longrightarrow> b \<in> set r \<Longrightarrow> recordLines r (hash b) = lines b"
  by (induction r) (auto simp: recordLines_def rev_image_eqI)

lemma length_concat_decorations:
  "length (concat (map decorationsOf bs)) = sum_list (map (\<lambda>b. length (lines b)) bs)"
  by (induction bs) (simp_all add: decorationsOf_def)

lemma range_concat_decorations:
  "map range_line (concat (map decorationsOf bs)) = concat (map lines bs)"
  by (induction bs) (simp_all add: decorationsOf_def comp_def)

lemma distinct_concat_filter:
  "distinct (concat (map f xs)) \<Longrightarrow> distinct (concat (map f (filter P xs)))"
  by (induction xs) auto

lemma matching_sum:
  assumes "distinct (map hash r)"
  shows "sum_list (map (\<lambda>b. length (lines b)) (matching hs r))
       = (\<Sum>h \<in> set hs \<inter> hash ` set r. length (recordLines r h))"
proof -
  let ?B = "set (matching hs r)"
  from assms have dr: "distinct r" by (rule distinct_map[THEN iffD1, THEN conjunct1])
  from assms have inj: "inj_on hash (set r)" by (simp add: distinct_map)
  have dm: "distinct (matching hs r)" using dr by (simp add: matching_def)
  have sub: "?B \<subseteq> set r" by (auto simp: matching_def)
  have img: "hash ` ?B = set hs \<inter> hash ` set r" by (auto simp: matching_def)
  have "sum_list (map (\<lambda>b. length (lines b)) (matching hs r)) = (\<Sum>b \<in> ?B. length (lines b))"
    using dm by (simp add: sum_list_distinct_conv_sum_set)
  also have "\<dots> = (\<Sum>b \<in> ?B. length (recordLines r (hash b)))"
    using sub recordLines_mem[OF assms] by (intro sum.cong) auto
  also have "\<dots> = (\<Sum>h \<in> hash ` ?B. length (recordLines r h))"
    using inj_on_subset[OF inj sub] by (simp add: sum.reindex)
  finally show ?thesis using img by simp
qed

lemma matching_lines:
  assumes "distinct (map hash r)"
  shows "set (concat (map lines (matching hs r))) = (\<Union>h \<in> set hs \<inter> hash ` set r. set (recordLines r h))"
proof -
  have "\<And>b. b \<in> set r \<Longrightarrow> set (recordLines r (hash b)) = set (lines b)"
    using recordLines_mem[OF assms] by simp
  then show ?thesis by (auto simp: matching_def) 
qed

section \<open>Highlighting one editor\<close>

lemma setDecorations_twice [simp]:
  "setDecorations ds (setDecorations ds' ed) = setDecorations ds ed"
  "fsPath (setDecorations ds ed) = fsPath ed"
  "lineCount (setDecorations ds ed) = lineCount ed"
  "highlightDecorations (setDecorations ds ed) = ds"
  "minimapDecorations (setDecorations ds ed) = ds"
  by (simp_all add: setDecorations_def)

lemma collectDecorations_cleared [simp]:
  "collectDecorations (setDecorations ds ed) hs r = collectDecorations ed hs r"
  by (rule collectDecorations_lineCount) simp

lemma highlight_decorations:
  assumes "i < length (visibleTextEditors s)"
  shows "visibleTextEditors (applyHighlighting env i hs (clearHighlighting i s)) ! i =
     setDecorations
       (if hs = [] then []
        else (case collectDecorations (visibleTextEditors s ! i) hs
                     (blameResult env (fsPath (visibleTextEditors s ! i)) (blameCache s)) of
                Inl err \<Rightarrow> [] | Inr ds \<Rightarrow> ds))
       (visibleTextEditors s ! i)"
proof -
  let ?ed = "visibleTextEditors s ! i"
  let ?r = "blameResult env (fsPath ?ed) (blameCache s)"
  show ?thesis
  proof (cases "hs = [] \<or> ?r = []")
    case True
    with assms show ?thesis
      by (auto simp: applyHighlighting_editors clearHighlighting_fields editorsAfter_def Let_def)
  next
    case False
    with assms show ?thesis
      by (cases "collectDecorations ?ed hs ?r")
        (simp_all add: applyHighlighting_editors clearHighlighting_fields editorsAfter_def Let_def)
  qed
qed

lemma getBlame_wf:
  assumes "cache_inv s" "fst (getBlameInfoForFile env p s) = Inr r"
  shows "wf_record r"
proof -
  from assms(2) have r: "r = blameResult env p (blameCache s)" by (simp add: getBlame_result)
  show ?thesis
  proof (cases "blameCache s p")
    case (Some c) with assms(1) r show ?thesis by (auto simp: cache_inv_def blameResult_def)
  next
    case None
    with r show ?thesis
      by (auto simp: blameResult_def queryBlame_def parseBlame_hashes parseBlame_lines wf_record_def split: option.splits sum.splits)
  qed
qed

lemma clearAllHighlights_fields:
  "blameCache (clearAllHighlights s) = blameCache s"
  "commitHashes (clearAllHighlights s) = commitHashes s"
  "isHighlightingEnabled (clearAllHighlights s) = isHighlightingEnabled s"
  "activeTextEditor (clearAllHighlights s) = activeTextEditor s"
  "visibleTextEditors (clearAllHighlights s) = map (setDecorations []) (visibleTextEditors s)"
  "highlightedFiles (clearAllHighlights s) = Map.empty"
  by (simp_all add: clearAllHighlights_def emit_def refreshFileExplorerDecorations_def)

lemma saveState_fields:
  "blameCache (saveState s) = blameCache s"
  "commitHashes (saveState s) = commitHashes s"
  "isHighlightingEnabled (saveState s) = isHighlightingEnabled s"
  "activeTextEditor (saveState s) = activeTextEditor s"
  "visibleTextEditors (saveState s) = visibleTextEditors s"
  "highlightedFiles (saveState s) = highlightedFiles s"
  by (simp_all add: saveState_def emit_def)

section \<open>Touched files\<close>

lemma getFilesForCommit_result:
  "fst (getFilesForCommit env c w s) = Inr (changedFiles env w c)"
  by (simp add: getFilesForCommit_def changedFiles_def Let_def split: sum.splits)

lemma getFilesForCommit_fields:
  "blameCache (snd (getFilesForCommit env c w s)) = blameCache s"
  "highlightedFiles (snd (getFilesForCommit env c w s)) = highlightedFiles s"
  "commitHashes (snd (getFilesForCommit env c w s)) = commitHashes s"
  "isHighlightingEnabled (snd (getFilesForCommit env c w s)) = isHighlightingEnabled s"
  "visibleTextEditors (snd (getFilesForCommit env c w s)) = visibleTextEditors s"
  "activeTextEditor (snd (getFilesForCommit env c w s)) = activeTextEditor s"
  by (simp_all add: getFilesForCommit_def Let_def emit_def split: sum.splits)

lemma getFilesForCommit_trace:
  "set (trace (snd (getFilesForCommit env c w s))) \<supseteq> insert (Exec (diffTreeCommand c) w) (set (trace s))"
  by (auto simp: getFilesForCommit_def Let_def emit_def split: sum.splits)

lemma resolveChangeId_result:
  "startsWith_I identifier \<Longrightarrow>
   fst (resolveChangeId env identifier w s) = Inr (resolvedCommit env w identifier)"
  by (simp add: resolveChangeId_def resolvedCommit_def Let_def split: sum.splits)

lemma resolveChangeId_fields:
  "blameCache (snd (resolveChangeId env c w s)) = blameCache s"
  "highlightedFiles (snd (resolveChangeId env c w s)) = highlightedFiles s"
  "commitHashes (snd (resolveChangeId env c w s)) = commitHashes s"
  "isHighlightingEnabled (snd (resolveChangeId env c w s)) = isHighlightingEnabled s"
  "visibleTextEditors (snd (resolveChangeId env c w s)) = visibleTextEditors s"
  "activeTextEditor (snd (resolveChangeId env c w s)) = activeTextEditor s"
  by (simp_all add: resolveChangeId_def Let_def emit_def split: sum.splits)

lemma resolveChangeId_trace:
  "set (trace (snd (resolveChangeId env c w s))) \<supseteq> insert (Exec (logGrepCommand c) w) (set (trace s))"
  by (auto simp: resolveChangeId_def Let_def emit_def split: sum.splits)

lemma touchedEntry_Un: "touchedEntry B (touchedEntry A files) = touchedEntry (A \<union> B) files"
  by (auto simp: touchedEntry_def)

lemma touchedEntry_empty [simp]: "touchedEntry {} files = files"
  by (simp add: touchedEntry_def)

lemma markFiles_fields:
  "blameCache (markFiles env w fs s) = blameCache s"
  "commitHashes (markFiles env w fs s) = commitHashes s"
  "isHighlightingEnabled (markFiles env w fs s) = isHighlightingEnabled s"
  "visibleTextEditors (markFiles env w fs s) = visibleTextEditors s"
  "activeTextEditor (markFiles env w fs s) = activeTextEditor s"
  "trace (markFiles env w fs s) = trace s"
  by (induction fs arbitrary: s) (simp_all add: Let_def)

lemma markFiles_files:
  "highlightedFiles (markFiles env w fs s) =
     touchedEntry (path_join env w ` set fs) (highlightedFiles s)"
proof (induction fs arbitrary: s)
  case Nil then show ?case by simp
next
  case (Cons f fs)
  have "(highlightedFiles s)(path_join env w f \<mapsto> \<lparr>uri = path_join env w f, highlightCount = 1\<rparr>)
        = touchedEntry {path_join env w f} (highlightedFiles s)"
    by (auto simp: touchedEntry_def)
  then show ?case by (simp add: Cons.IH Let_def touchedEntry_Un)
qed

text \<open>One round of the loop over the idents.\<close>

lemma updateFilesLoop_Cons:
  "updateFilesLoop env w (ident # rest) s =
     (case resolvedCommit env w ident of
        None \<Rightarrow>
          updateFilesLoop env w rest
            (emit (ConsoleWarn (''Could not resolve Change-Id: '' @ ident))
               (snd (resolveChangeId env ident w s)))
      | Some commit \<Rightarrow>
          updateFilesLoop env w rest
            (markFiles env w (changedFiles env w commit)
               (snd (getFilesForCommit env commit w
                  (if startsWith_I ident then snd (resolveChangeId env ident w s) else s)))))"
proof (cases "startsWith_I ident")
  case True
  obtain s1 where r: "resolveChangeId env ident w s = (Inr (resolvedCommit env w ident), s1)"
    using resolveChangeId_result[OF True, of env w s] by (cases "resolveChangeId env ident w s") simp
  show ?thesis
  proof (cases "resolvedCommit env w ident")
    case None with True r show ?thesis by simp
  next
    case (Some c)
    obtain s2 where g: "getFilesForCommit env c w s1 = (Inr (changedFiles env w c), s2)"
      using getFilesForCommit_result[of env c w s1] by (cases "getFilesForCommit env c w s1") simp
    from True r Some g show ?thesis by simp
  qed
next
  case False
  obtain s2 where g: "getFilesForCommit env ident w s = (Inr (changedFiles env w ident), s2)"
    using getFilesForCommit_result[of env ident w s] by (cases "getFilesForCommit env ident w s") simp
  from False g show ?thesis by (simp add: resolvedCommit_def)
qed

lemma touchedFiles_Cons:
  "touchedFiles env w (ident # rest) =
     (case resolvedCommit env w ident of None \<Rightarrow> {}
      | Some commit \<Rightarrow> path_join env w ` set (changedFiles env w commit)) \<union> touchedFiles env w rest"
  by (simp add: touchedFiles_def)

lemma emit_fields:
  "blameCache (emit e s) = blameCache s"
  "highlightedFiles (emit e s) = highlightedFiles s"
  "commitHashes (emit e s) = commitHashes s"
  "isHighlightingEnabled (emit e s) = isHighlightingEnabled s"
  "visibleTextEditors (emit e s) = visibleTextEditors s"
  "activeTextEditor (emit e s) = activeTextEditor s"
  "trace (emit e s) = trace s @ [e]"
  by (simp_all add: emit_def)

lemma updateFilesLoop_result: "fst (updateFilesLoop env w ids s) = Inr ()"
  by (induction ids arbitrary: s)
     (simp_all add: updateFilesLoop_Cons del: updateFilesLoop.simps(2) split: option.splits)

lemma updateFilesLoop_files:
  "highlightedFiles (snd (updateFilesLoop env w ids s)) =
     touchedEntry (touchedFiles env w ids) (highlightedFiles s)"
proof (induction ids arbitrary: s)
  case Nil then show ?case by (simp add: touchedFiles_def)
next
  case (Cons ident rest)
  show ?case
    by (simp add: updateFilesLoop_Cons Cons.IH touchedFiles_Cons emit_fields resolveChangeId_fields
        getFilesForCommit_fields markFiles_files touchedEntry_Un
        del: updateFilesLoop.simps(2) split: option.splits)
qed

lemma updateFilesLoop_fields:
  "blameCache (snd (updateFilesLoop env w ids s)) = blameCache s \<and>
   commitHashes (snd (updateFilesLoop env w ids s)) = commitHashes s \<and>
   isHighlightingEnabled (snd (updateFilesLoop env w ids s)) = isHighlightingEnabled s \<and>
   visibleTextEditors (snd (updateFilesLoop env w ids s)) = visibleTextEditors s \<and>
   activeTextEditor (snd (updateFilesLoop env w ids s)) = activeTextEditor s"
  by (induction ids arbitrary: s)
     (simp_all add: updateFilesLoop_Cons emit_fields resolveChangeId_fields
        getFilesForCommit_fields markFiles_fields
        del: updateFilesLoop.simps(2) split: option.splits)

lemma updateFilesLoop_trace_mono:
  "set (trace s) \<subseteq> set (trace (snd (updateFilesLoop env w ids s)))"
proof (induction ids arbitrary: s)
  case Nil then show ?case by simp
next
  case (Cons ident rest)
  show ?case
  proof (cases "resolvedCommit env w ident")
    case None
    let ?s1 = "emit (ConsoleWarn (''Could not resolve Change-Id: '' @ ident))
               (snd (resolveChangeId env ident w s))"
    have a: "set (trace s) \<subseteq> set (trace ?s1)"
      using resolveChangeId_trace[of ident w s env] by (auto simp: emit_fields)
    have b: "updateFilesLoop env w (ident # rest) s = updateFilesLoop env w rest ?s1"
      using None by (simp add: updateFilesLoop_Cons del: updateFilesLoop.simps(2))
    show ?thesis unfolding b by (rule subset_trans[OF a Cons.IH])
  next
    case (Some c)
    let ?s0 = "if startsWith_I ident then snd (resolveChangeId env ident w s) else s"
    let ?s1 = "markFiles env w (changedFiles env w c) (snd (getFilesForCommit env c w ?s0))"
    have "set (trace s) \<subseteq> set (trace ?s0)"
      using resolveChangeId_trace[of ident w s env] by auto
    moreover have "set (trace ?s0) \<subseteq> set (trace ?s1)"
      using getFilesForCommit_trace[of c w ?s0 env] by (simp add: markFiles_fields)
    ultimately have a: "set (trace s) \<subseteq> set (trace ?s1)" by (rule subset_trans)
    have b: "updateFilesLoop env w (ident # rest) s = updateFilesLoop env w rest ?s1"
      using Some by (simp add: updateFilesLoop_Cons del: updateFilesLoop.simps(2))
    show ?thesis unfolding b by (rule subset_trans[OF a Cons.IH])
  qed
qed

lemma updateFilesLoop_warns:
  "ident \<in> set ids \<Longrightarrow> resolvedCommit env w ident = None \<Longrightarrow>
   ConsoleWarn (''Could not resolve Change-Id: '' @ ident)
     \<in> set (trace (snd (updateFilesLoop env w ids s)))"
proof (induction ids arbitrary: s)
  case Nil then show ?case by simp
next
  case (Cons x rest)
  show ?case
  proof (cases "x = ident")
    case True
    let ?s1 = "emit (ConsoleWarn (''Could not resolve Change-Id: '' @ ident))
               (snd (resolveChangeId env ident w s))"
    have a: "ConsoleWarn (''Could not resolve Change-Id: '' @ ident) \<in> set (trace ?s1)"
      by (simp add: emit_fields)
    have b: "updateFilesLoop env w (x # rest) s = updateFilesLoop env w rest ?s1"
      using True Cons.prems(2) by (simp add: updateFilesLoop_Cons del: updateFilesLoop.simps(2))
    show ?thesis unfolding b using a updateFilesLoop_trace_mono[of ?s1 env w rest] by (rule set_mp[rotated])
  next
    case False
    with Cons.prems have "ident \<in> set rest" by simp
    note ih = Cons.IH[OF this Cons.prems(2)]
    show ?thesis
    proof (cases "resolvedCommit env w x")
      case None
      then show ?thesis using ih by (simp add: updateFilesLoop_Cons del: updateFilesLoop.simps(2))
    next
      case (Some c)
      then show ?thesis using ih by (simp add: updateFilesLoop_Cons del: updateFilesLoop.simps(2))
    qed
  qed
qed

lemma updateFilesLoop_split:
  "updateFilesLoop env w ids s = (Inr (), snd (updateFilesLoop env w ids s))"
  using updateFilesLoop_result[of env w ids s] by (cases "updateFilesLoop env w ids s") simp

lemma updateFilesForCommits_result: "fst (updateFilesForCommits env ids s) = Inr ()"
  unfolding updateFilesForCommits_def Let_def
  by (subst updateFilesLoop_split) (simp split: list.splits)

lemma updateFilesForCommits_snd:
  "snd (updateFilesForCommits env ids s) =
     (case workspaceFolders env of
        [] \<Rightarrow> s\<lparr>highlightedFiles := Map.empty\<rparr>
      | w # _ \<Rightarrow> refreshFileExplorerDecorations
                   (snd (updateFilesLoop env w ids (s\<lparr>highlightedFiles := Map.empty\<rparr>))))"
  unfolding updateFilesForCommits_def Let_def
  by (subst updateFilesLoop_split) (simp split: list.splits)

lemma updateFilesForCommits_fields:
  "blameCache (snd (updateFilesForCommits env ids s)) = blameCache s"
  "commitHashes (snd (updateFilesForCommits env ids s)) = commitHashes s"
  "isHighlightingEnabled (snd (updateFilesForCommits env ids s)) = isHighlightingEnabled s"
  "visibleTextEditors (snd (updateFilesForCommits env ids s)) = visibleTextEditors s"
  "activeTextEditor (snd (updateFilesForCommits env ids s)) = activeTextEditor s"
  by (simp_all add: updateFilesForCommits_snd refreshFileExplorerDecorations_def emit_fields
      updateFilesLoop_fields split: list.splits)

lemma updateFilesForCommits_files:
  "highlightedFiles (snd (updateFilesForCommits env ids s)) =
     (case workspaceFolders env of
        [] \<Rightarrow> Map.empty
      | w # _ \<Rightarrow> touchedEntry (touchedFiles env w ids) Map.empty)"
  by (simp add: updateFilesForCommits_snd refreshFileExplorerDecorations_def emit_fields
      updateFilesLoop_files split: list.splits)

section \<open>Literal matching\<close>

lemma collectDecorations_Inr:
  assumes "collectDecorations ed hs r = Inr ds"
  shows "ds = concat (map decorationsOf (matching hs r))"
proof (cases "linesInDocument ed (matching hs r)")
  case True from collectDecorations_ok[OF this] assms show ?thesis by simp
next
  case False from collectDecorations_fail[OF this] assms show ?thesis by simp
qed

lemma collectDecorations_literal:
  assumes "collectDecorations ed hs r = Inr ds" "d \<in> set ds"
  shows "\<exists>b \<in> set r. hash b \<in> set hs \<and> hoverMessage d = ''Commit: '' @ hash b \<and>
           range_line d \<in> set (lines b)"
  using assms(2) unfolding collectDecorations_Inr[OF assms(1)]
  by (auto simp: matching_def decorationsOf_def)

text \<open>The decorations an editor shows after clear-then-apply come from literal matches.\<close>

lemma highlight_literal:
  assumes "i < length (visibleTextEditors s)"
    and "d \<in> set (highlightDecorations
            (visibleTextEditors (applyHighlighting env i hs (clearHighlighting i s)) ! i))"
  shows "\<exists>b \<in> set (blameResult env (fsPath (visibleTextEditors s ! i)) (blameCache s)).
           hash b \<in> set hs \<and> hoverMessage d = ''Commit: '' @ hash b \<and>
           range_line d \<in> set (lines b)"
proof -
  let ?c = "collectDecorations (visibleTextEditors s ! i) hs
              (blameResult env (fsPath (visibleTextEditors s ! i)) (blameCache s))"
  from assms(2) have d: "d \<in> set (if hs = [] then [] else (case ?c of Inl err \<Rightarrow> [] | Inr ds \<Rightarrow> ds))"
    by (simp add: highlight_decorations[OF assms(1)])
  then obtain ds where "?c = Inr ds" "d \<in> set ds"
    by (cases ?c) (auto split: if_splits)
  then show ?thesis by (rule collectDecorations_literal)
qed

lemma parseBlame_key:
  assumes "b \<in> set (parseBlame out)"
  shows "\<exists>n. n < length (split_nl out) \<and> n \<in> set (lines b) \<and>
             takeWhile isWordChar (split_nl out ! n) \<noteq> [] \<and>
             hash b = take 40 (takeWhile isWordChar (split_nl out ! n))"
proof -
  from parseBlame_nonempty[OF assms] obtain n where n: "n \<in> set (lines b)"
    by (cases "lines b") auto
  with assms have "\<exists>b' \<in> set (parseBlame out). hash b' = hash b \<and> n \<in> set (lines b')" by blast
  then have "n < length (split_nl out) \<and> lineKey (split_nl out ! n) = Some (hash b)"
    by (simp only: parseBlame_mem)
  with n show ?thesis
    by (auto simp: lineKey_def matchWord_def Let_def split: if_splits)
qed

lemma blameCommand_not_log:
  "blameCommand rel \<noteq> logGrepCommand x" "logGrepCommand x \<noteq> blameCommand rel"
  by (simp_all add: blameCommand_def logGrepCommand_def)

lemma getBlame_no_log:
  "Exec (logGrepCommand x) w \<in> set (trace (snd (getBlameInfoForFile env p s))) \<Longrightarrow>
   Exec (logGrepCommand x) w \<in> set (trace s)"
  by (auto simp: getBlameInfoForFile_def getBlameInfoForFile_try_def Let_def emit_def
      blameCommand_not_log split: option.splits sum.splits)

lemma applyHighlighting_no_log:
  "Exec (logGrepCommand x) w \<in> set (trace (applyHighlighting env i hs s)) \<Longrightarrow>
   Exec (logGrepCommand x) w \<in> set (trace s)"
  unfolding applyHighlighting_def Let_def
  apply (subst (asm) getBlame_split)
  apply (auto simp: applyHighlighting_catch_def emit_def updateEditor_def
      refreshFileExplorerDecorations_def dest: getBlame_no_log split: sum.splits if_splits)
  done

lemma touched_contributes:
  assumes "workspaceFolders env = root # others" "ident \<in> set ids"
    "resolvedCommit env root ident = Some c" "f \<in> set (changedFiles env root c)"
  shows "highlightedFiles (snd (updateFilesForCommits env ids s)) (path_join env root f) =
           Some \<lparr>uri = path_join env root f, highlightCount = 1\<rparr>"
proof -
  from assms(2-4) have "path_join env root f \<in> touchedFiles env root ids"
    by (force simp: touchedFiles_def)
  with assms(1) show ?thesis by (simp add: updateFilesForCommits_files touchedEntry_def)
qed

section \<open>Highlighting all visible editors\<close>

lemma cacheAfter_All: "cacheAfter env q c = cacheAfterAll env {q} c"
  by (auto simp: cacheAfter_def cacheAfterAll_def split: option.splits)

lemma cacheAfterAll_Un: "cacheAfterAll env P (cacheAfterAll env Q c) = cacheAfterAll env (P \<union> Q) c"
  by (auto simp: cacheAfterAll_def split: option.splits)

lemma blameResult_AfterAll: "blameResult env p (cacheAfterAll env P c) = blameResult env p c"
  by (auto simp: blameResult_def cacheAfterAll_def split: option.splits)

lemma planned_AfterAll: "planned env hs (cacheAfterAll env P c) ed = planned env hs c ed"
  by (simp add: planned_def blameResult_AfterAll)

lemma planned_setDecorations [simp]: "planned env hs c (setDecorations ds ed) = planned env hs c ed"
  by (simp add: planned_def)

lemma highlighted_start: "highlighted env s {} s"
  by (simp add: highlighted_def cacheAfterAll_def)

text \<open>Clear-then-apply on one editor, field by field.\<close>

lemma highlight_one:
  assumes "j < length (visibleTextEditors s)" "hs \<noteq> []"
  shows "visibleTextEditors (applyHighlighting env j hs (clearHighlighting j s)) =
           (visibleTextEditors s)[j := setDecorations (planned env hs (blameCache s) (visibleTextEditors s ! j))
                                    (visibleTextEditors s ! j)]"
    and "blameCache (applyHighlighting env j hs (clearHighlighting j s)) =
           cacheAfter env (fsPath (visibleTextEditors s ! j)) (blameCache s)"
    and "p \<noteq> fsPath (visibleTextEditors s ! j) \<Longrightarrow>
           highlightedFiles (applyHighlighting env j hs (clearHighlighting j s)) p = highlightedFiles s p"
proof -
  let ?ed = "visibleTextEditors s ! j"
  let ?r = "blameResult env (fsPath ?ed) (blameCache s)"
  show "visibleTextEditors (applyHighlighting env j hs (clearHighlighting j s)) =
           (visibleTextEditors s)[j := setDecorations (planned env hs (blameCache s) ?ed) ?ed]"
  proof (cases "?r = []")
    case True
    with assms show ?thesis
      by (simp add: applyHighlighting_editors clearHighlighting_fields editorsAfter_def Let_def planned_def)
  next
    case False
    with assms show ?thesis
      by (cases "collectDecorations ?ed hs ?r")
        (simp_all add: applyHighlighting_editors clearHighlighting_fields editorsAfter_def Let_def planned_def)
  qed
  show "blameCache (applyHighlighting env j hs (clearHighlighting j s)) =
           cacheAfter env (fsPath ?ed) (blameCache s)"
    using assms by (simp add: applyHighlighting_cache clearHighlighting_fields)
  show "p \<noteq> fsPath ?ed \<Longrightarrow>
           highlightedFiles (applyHighlighting env j hs (clearHighlighting j s)) p = highlightedFiles s p"
    using assms
    by (simp add: applyHighlighting_files clearHighlighting_fields filesAfter_def Let_def split: sum.splits)
qed

lemma highlight_one_frame:
  "commitHashes (applyHighlighting env j hs (clearHighlighting j s)) = commitHashes s"
  "isHighlightingEnabled (applyHighlighting env j hs (clearHighlighting j s)) = isHighlightingEnabled s"
  "activeTextEditor (applyHighlighting env j hs (clearHighlighting j s)) = activeTextEditor s"
  by (simp_all add: applyHighlighting_frame clearHighlighting_fields)

lemma highlighted_step:
  assumes R: "highlighted env s J s'" and j: "j < length (visibleTextEditors s)"
    and hs: "commitHashes s \<noteq> []"
  shows "highlighted env s (insert j J)
           (applyHighlighting env j (commitHashes s') (clearHighlighting j s'))"
proof -
  let ?eds = "visibleTextEditors s" and ?c = "blameCache s" and ?hs = "commitHashes s"
  let ?P = "(\<lambda>j. fsPath (visibleTextEditors s ! j)) ` J"
  from R have h: "commitHashes s' = ?hs" and len: "length (visibleTextEditors s') = length ?eds"
    and c': "blameCache s' = cacheAfterAll env ?P ?c"
    and ed: "\<And>k. k < length ?eds \<Longrightarrow> visibleTextEditors s' ! k =
           (if k \<in> J then setDecorations (planned env ?hs ?c (?eds ! k)) (?eds ! k) else ?eds ! k)"
    and fl: "\<And>p. p \<notin> fsPath ` set ?eds \<Longrightarrow> highlightedFiles s' p = highlightedFiles s p"
    by (simp_all add: highlighted_def)
  from j len have j': "j < length (visibleTextEditors s')" by simp
  from hs h have hs': "commitHashes s' \<noteq> []" by simp
  have path: "fsPath (visibleTextEditors s' ! j) = fsPath (?eds ! j)" using ed[OF j] by simp
  have pl: "planned env ?hs (blameCache s') (visibleTextEditors s' ! j) = planned env ?hs ?c (?eds ! j)"
    using ed[OF j] by (simp add: c' planned_AfterAll)
  have new: "setDecorations (planned env ?hs ?c (?eds ! j)) (visibleTextEditors s' ! j)
        = setDecorations (planned env ?hs ?c (?eds ! j)) (?eds ! j)"
    using ed[OF j] by simp
  define s'' where "s'' = applyHighlighting env j (commitHashes s') (clearHighlighting j s')"
  note one = highlight_one[OF j' hs', where env = env, folded s''_def]
  have e'': "visibleTextEditors s'' =
      (visibleTextEditors s')[j := setDecorations (planned env ?hs ?c (?eds ! j)) (?eds ! j)]"
    using one(1) by (simp add: h pl new)
  have 0: "length (visibleTextEditors s'') = length ?eds" by (simp add: e'' len)
  have 1: "\<forall>k < length ?eds. visibleTextEditors s'' ! k =
           (if k \<in> insert j J then setDecorations (planned env ?hs ?c (?eds ! k)) (?eds ! k)
            else ?eds ! k)"
    using ed j' len by (auto simp: e'' nth_list_update)
  have 2: "blameCache s'' = cacheAfterAll env ((\<lambda>j. fsPath (visibleTextEditors s ! j)) ` insert j J) ?c"
    using one(2) by (simp add: path c' cacheAfter_All cacheAfterAll_Un)
  have 3: "\<forall>p. p \<notin> fsPath ` set ?eds \<longrightarrow> highlightedFiles s'' p = highlightedFiles s p"
  proof (intro allI impI)
    fix p assume p: "p \<notin> fsPath ` set ?eds"
    with j have "p \<noteq> fsPath (?eds ! j)" by (metis image_eqI nth_mem)
    with path have "p \<noteq> fsPath (visibleTextEditors s' ! j)" by simp
    from one(3)[OF this] fl[OF p] show "highlightedFiles s'' p = highlightedFiles s p" by simp
  qed
  from R have 4: "commitHashes s'' = commitHashes s" "isHighlightingEnabled s'' = isHighlightingEnabled s"
     "activeTextEditor s'' = activeTextEditor s"
    by (simp_all add: highlighted_def s''_def highlight_one_frame)
  have "highlighted env s (insert j J) s''"
    unfolding highlighted_def by (intro conjI 0 1 2 3 4)
  then show ?thesis by (simp only: s''_def)
qed


lemma highlight_one_file:
  assumes "j < length (visibleTextEditors s)" "hs \<noteq> []"
  shows "highlightedFiles (applyHighlighting env j hs (clearHighlighting j s)) (fsPath (visibleTextEditors s ! j)) =
           (if planned env hs (blameCache s) (visibleTextEditors s ! j) = [] then None
            else Some \<lparr>uri = fsPath (visibleTextEditors s ! j),
                       highlightCount = length (planned env hs (blameCache s) (visibleTextEditors s ! j))\<rparr>)"
proof -
  let ?ed = "visibleTextEditors s ! j"
  let ?r = "blameResult env (fsPath ?ed) (blameCache s)"
  show ?thesis
  proof (cases "?r = []")
    case True
    with assms show ?thesis
      by (simp add: applyHighlighting_files clearHighlighting_fields filesAfter_def Let_def planned_def)
  next
    case False
    with assms show ?thesis
      by (cases "collectDecorations ?ed hs ?r")
        (simp_all add: applyHighlighting_files clearHighlighting_fields filesAfter_def Let_def planned_def)
  qed
qed

lemma activeEditor_highlighted:
  assumes "highlighted env s J s'"
  shows "activeEditor s' = activeEditor s"
proof -
  from assms have "activeTextEditor s' = activeTextEditor s"
    "length (visibleTextEditors s') = length (visibleTextEditors s)"
    by (simp_all add: highlighted_def)
  then show ?thesis by (simp add: activeEditor_def split: option.splits)
qed

lemma activeEditor_less: "activeEditor s = Some i \<Longrightarrow> i < length (visibleTextEditors s)"
  by (auto simp: activeEditor_def split: option.splits if_splits)

lemma highlighted_fold:
  assumes "highlighted env s J s'" "commitHashes s \<noteq> []"
    and "\<forall>j \<in> set js. j < length (visibleTextEditors s)"
    and "\<forall>i. activeEditor s = Some i \<longrightarrow> i \<in> J"
  shows "highlighted env s (J \<union> set js)
           (fold (\<lambda>i s'. if activeEditor s' = Some i then s'
                          else applyHighlighting env i (commitHashes s') (clearHighlighting i s'))
              js s')"
  using assms
proof (induction js arbitrary: J s')
  case Nil then show ?case by simp
next
  case (Cons j js)
  let ?step = "\<lambda>i s'. if activeEditor s' = Some i then s'
                          else applyHighlighting env i (commitHashes s') (clearHighlighting i s')"
  have R': "highlighted env s (insert j J) (?step j s')"
  proof (cases "activeEditor s' = Some j")
    case True
    with activeEditor_highlighted[OF Cons.prems(1)] Cons.prems(4) have "j \<in> J" by simp
    then have "insert j J = J" by auto
    with True Cons.prems(1) show ?thesis by simp
  next
    case False
    from Cons.prems(3) have "j < length (visibleTextEditors s)" by simp
    from highlighted_step[OF Cons.prems(1) this Cons.prems(2)] False show ?thesis by simp
  qed
  have "highlighted env s (insert j J \<union> set js) (fold ?step js (?step j s'))"
    using Cons.prems by (intro Cons.IH[OF R']) auto
  then show ?case by simp
qed

lemma highlightActiveEditor_highlighted:
  assumes "isHighlightingEnabled s" "commitHashes s \<noteq> []"
  shows "highlighted env s (case activeEditor s of None \<Rightarrow> {} | Some i \<Rightarrow> {i}) (highlightActiveEditor env s)"
proof (cases "activeEditor s")
  case None then show ?thesis by (simp add: highlightActiveEditor_def highlighted_start)
next
  case (Some i)
  from highlighted_step[OF highlighted_start activeEditor_less[OF Some] assms(2), of env] Some assms
  show ?thesis by (simp add: highlightActiveEditor_def clearHighlighting_fields Let_def)
qed

lemma triggerHighlighting_highlighted:
  assumes "isHighlightingEnabled s" "commitHashes s \<noteq> []"
  shows "highlighted env s {..<length (visibleTextEditors s)} (triggerHighlighting env s)"
proof -
  let ?J = "case activeEditor s of None \<Rightarrow> {} | Some i \<Rightarrow> {i}"
  let ?s1 = "highlightActiveEditor env s"
  note R1 = highlightActiveEditor_highlighted[OF assms, of env]
  then have f: "isHighlightingEnabled ?s1" "commitHashes ?s1 \<noteq> []"
      "length (visibleTextEditors ?s1) = length (visibleTextEditors s)"
    using assms by (simp_all add: highlighted_def)
  have J: "?J \<union> set [0..<length (visibleTextEditors s)] = {..<length (visibleTextEditors s)}"
    using activeEditor_less[of s] by (auto split: option.splits)
  have "highlighted env s (?J \<union> set [0..<length (visibleTextEditors s)])
      (fold (\<lambda>i s'. if activeEditor s' = Some i then s'
                      else applyHighlighting env i (commitHashes s') (clearHighlighting i s'))
         [0..<length (visibleTextEditors s)] ?s1)"
    by (rule highlighted_fold[OF R1 assms(2)]) (auto split: option.splits)
  then show ?thesis
    unfolding J by (simp add: triggerHighlighting_def highlightAllVisibleEditors_def f)
qed

lemma triggerHighlighting_off:
  "\<not> (isHighlightingEnabled s \<and> commitHashes s \<noteq> []) \<Longrightarrow>
   triggerHighlighting env s =
     (case activeEditor s of None \<Rightarrow> s | Some i \<Rightarrow> clearHighlighting i s)"
  by (auto simp: triggerHighlighting_def highlightAllVisibleEditors_def highlightActiveEditor_def
      clearHighlighting_fields Let_def split: option.splits)

section \<open>Highlighting twice\<close>

lemma planned_after [simp]:
  "planned env hs (cacheAfter env q c) ed = planned env hs c ed"
  by (simp add: cacheAfter_All planned_AfterAll)

lemma highlight_twice:
  fixes env i hs s
  defines "s1 \<equiv> applyHighlighting env i hs (clearHighlighting i s)"
  defines "s2 \<equiv> applyHighlighting env i hs (clearHighlighting i s1)"
  shows "visibleTextEditors s2 = visibleTextEditors s1 \<and> highlightedFiles s2 = highlightedFiles s1 \<and>
         blameCache s2 = blameCache s1"
proof (cases "i < length (visibleTextEditors s) \<and> hs \<noteq> []")
  case False
  then show ?thesis
    by (auto simp: s1_def s2_def applyHighlighting_def clearHighlighting_fields)
next
  case True
  then have i: "i < length (visibleTextEditors s)" and hs: "hs \<noteq> []" by simp_all
  let ?ed = "visibleTextEditors s ! i"
  let ?D = "planned env hs (blameCache s) ?ed"
  have e1: "visibleTextEditors s1 = (visibleTextEditors s)[i := setDecorations ?D ?ed]"
    unfolding s1_def by (rule highlight_one(1)[OF i hs])
  have c1: "blameCache s1 = cacheAfter env (fsPath ?ed) (blameCache s)"
    unfolding s1_def by (rule highlight_one(2)[OF i hs])
  have f1: "highlightedFiles s1 (fsPath ?ed) =
      (if ?D = [] then None else Some \<lparr>uri = fsPath ?ed, highlightCount = length ?D\<rparr>)"
    unfolding s1_def by (rule highlight_one_file[OF i hs])
  from i have i1: "i < length (visibleTextEditors s1)" by (simp add: e1)
  from i have ed1: "visibleTextEditors s1 ! i = setDecorations ?D ?ed" by (simp add: e1)
  have D1: "planned env hs (blameCache s1) (visibleTextEditors s1 ! i) = ?D"
    by (simp add: ed1 c1)
  have "visibleTextEditors s2 =
      (visibleTextEditors s1)[i := setDecorations (planned env hs (blameCache s1) (visibleTextEditors s1 ! i))
                                   (visibleTextEditors s1 ! i)]"
    unfolding s2_def by (rule highlight_one(1)[OF i1 hs])
  then have "visibleTextEditors s2 = (visibleTextEditors s1)[i := setDecorations ?D (visibleTextEditors s1 ! i)]"
    by (simp only: D1)
  then have 1: "visibleTextEditors s2 = visibleTextEditors s1" by (simp add: ed1) (simp add: e1)
  have "blameCache s2 = cacheAfter env (fsPath (visibleTextEditors s1 ! i)) (blameCache s1)"
    unfolding s2_def by (rule highlight_one(2)[OF i1 hs])
  then have 2: "blameCache s2 = blameCache s1" by (simp add: ed1 c1 cacheAfter_idem)
  have 3: "highlightedFiles s2 = highlightedFiles s1"
  proof (rule ext)
    fix p show "highlightedFiles s2 p = highlightedFiles s1 p"
    proof (cases "p = fsPath ?ed")
      case True
      have "highlightedFiles s2 (fsPath (visibleTextEditors s1 ! i)) =
          (if planned env hs (blameCache s1) (visibleTextEditors s1 ! i) = [] then None
           else Some \<lparr>uri = fsPath (visibleTextEditors s1 ! i),
                  highlightCount = length (planned env hs (blameCache s1) (visibleTextEditors s1 ! i))\<rparr>)"
        unfolding s2_def by (rule highlight_one_file[OF i1 hs])
      then have "highlightedFiles s2 (fsPath (visibleTextEditors s1 ! i)) =
          (if ?D = [] then None
           else Some \<lparr>uri = fsPath (visibleTextEditors s1 ! i), highlightCount = length ?D\<rparr>)"
        by (simp only: D1)
      with True f1 show ?thesis by (simp add: ed1)
    next
      case False
      then have "p \<noteq> fsPath (visibleTextEditors s1 ! i)" by (simp add: ed1)
      then show ?thesis unfolding s2_def by (rule highlight_one(3)[OF i1 hs])
    qed
  qed
  from 1 2 3 show ?thesis by simp
qed

lemma applyHighlighting_twice:
  fixes env i hs s
  defines "s1 \<equiv> applyHighlighting env i hs s"
  defines "s2 \<equiv> applyHighlighting env i hs s1"
  shows "visibleTextEditors s2 = visibleTextEditors s1 \<and> highlightedFiles s2 = highlightedFiles s1 \<and>
         blameCache s2 = blameCache s1"
proof (cases "i < length (visibleTextEditors s) \<and> hs \<noteq> []")
  case False
  then show ?thesis by (auto simp: s1_def s2_def applyHighlighting_def)
next
  case True
  then have i: "i < length (visibleTextEditors s)" and hs: "hs \<noteq> []" by simp_all
  let ?ed = "visibleTextEditors s ! i"
  let ?r = "blameResult env (fsPath ?ed) (blameCache s)"
  have len: "length (visibleTextEditors s1) = length (visibleTextEditors s)"
    by (simp add: s1_def applyHighlighting_editors editorsAfter_def Let_def split: sum.splits)
  have same: "fsPath (visibleTextEditors s1 ! i) = fsPath ?ed"
      "lineCount (visibleTextEditors s1 ! i) = lineCount ?ed"
    using i by (simp_all add: s1_def applyHighlighting_editors editorsAfter_def Let_def split: sum.splits)
  have c1: "blameCache s1 = cacheAfter env (fsPath ?ed) (blameCache s)"
    using i hs by (simp add: s1_def applyHighlighting_cache)
  have r1: "blameResult env (fsPath (visibleTextEditors s1 ! i)) (blameCache s1) = ?r"
    by (simp add: same c1 blameResult_after)
  have col: "collectDecorations (visibleTextEditors s1 ! i) hs ?r = collectDecorations ?ed hs ?r"
    using same(2) by (rule collectDecorations_lineCount)
  have 2: "blameCache s2 = blameCache s1"
    using i hs len by (simp add: s2_def applyHighlighting_cache same c1 cacheAfter_idem)
  show ?thesis
  proof (cases "?r = []")
    case True
    then have "visibleTextEditors s1 = visibleTextEditors s" "highlightedFiles s1 = highlightedFiles s"
      by (simp_all add: s1_def applyHighlighting_editors applyHighlighting_files editorsAfter_def
          filesAfter_def Let_def)
    moreover from True r1 have "visibleTextEditors s2 = visibleTextEditors s1"
        "highlightedFiles s2 = highlightedFiles s1"
      by (simp_all add: s2_def applyHighlighting_editors applyHighlighting_files editorsAfter_def
          filesAfter_def Let_def)
    ultimately show ?thesis using 2 by simp
  next
    case False
    show ?thesis
    proof (cases "collectDecorations ?ed hs ?r")
      case (Inl err)
      then have "visibleTextEditors s1 = visibleTextEditors s" "highlightedFiles s1 = highlightedFiles s"
        by (simp_all add: s1_def applyHighlighting_editors applyHighlighting_files editorsAfter_def
            filesAfter_def Let_def)
      moreover from Inl r1 col have "visibleTextEditors s2 = visibleTextEditors s1"
          "highlightedFiles s2 = highlightedFiles s1"
        by (simp_all add: s2_def applyHighlighting_editors applyHighlighting_files editorsAfter_def
            filesAfter_def Let_def)
      ultimately show ?thesis using 2 by simp
    next
      case (Inr ds)
      with False i hs have e1: "visibleTextEditors s1 = (visibleTextEditors s)[i := setDecorations ds ?ed]"
        and f1: "highlightedFiles s1 =
          (if ds \<noteq> [] then (highlightedFiles s)(fsPath ?ed \<mapsto> \<lparr>uri = fsPath ?ed, highlightCount = length ds\<rparr>)
           else (highlightedFiles s)(fsPath ?ed := None))"
        by (simp_all add: s1_def applyHighlighting_editors applyHighlighting_files editorsAfter_def
            filesAfter_def Let_def)
      from i have ed1: "visibleTextEditors s1 ! i = setDecorations ds ?ed" by (simp add: e1)
      from Inr False i hs len r1 col have
        "visibleTextEditors s2 = (visibleTextEditors s1)[i := setDecorations ds (visibleTextEditors s1 ! i)]"
        "highlightedFiles s2 =
          (if ds \<noteq> [] then (highlightedFiles s1)(fsPath ?ed \<mapsto> \<lparr>uri = fsPath ?ed, highlightCount = length ds\<rparr>)
           else (highlightedFiles s1)(fsPath ?ed := None))"
        by (simp_all add: s2_def applyHighlighting_editors applyHighlighting_files editorsAfter_def
            filesAfter_def Let_def same)
      then have "visibleTextEditors s2 = visibleTextEditors s1" "highlightedFiles s2 = highlightedFiles s1"
        using i by (simp_all add: ed1) (simp_all add: e1 f1)
      with 2 show ?thesis by simp
    qed
  qed
qed

lemma clearHighlighting_twice:
  "visibleTextEditors (clearHighlighting i (clearHighlighting i s)) = visibleTextEditors (clearHighlighting i s)"
  "highlightedFiles (clearHighlighting i (clearHighlighting i s)) = highlightedFiles (clearHighlighting i s)"
  "blameCache (clearHighlighting i (clearHighlighting i s)) = blameCache (clearHighlighting i s)"
  by (simp_all add: clearHighlighting_fields)

lemma highlightActiveEditor_twice:
  fixes env s
  defines "s1 \<equiv> highlightActiveEditor env s"
  defines "s2 \<equiv> highlightActiveEditor env s1"
  shows "visibleTextEditors s2 = visibleTextEditors s1 \<and> highlightedFiles s2 = highlightedFiles s1 \<and>
         blameCache s2 = blameCache s1"
proof (cases "activeEditor s")
  case None
  then show ?thesis by (simp add: s1_def s2_def highlightActiveEditor_def)
next
  case (Some i)
  show ?thesis
  proof (cases "isHighlightingEnabled s \<and> commitHashes s \<noteq> []")
    case True
    then have s1: "s1 = applyHighlighting env i (commitHashes s) (clearHighlighting i s)"
      using Some by (simp add: s1_def highlightActiveEditor_def clearHighlighting_fields Let_def)
    from highlightActiveEditor_highlighted[of s env] True Some
    have R: "highlighted env s {i} s1" by (simp add: s1_def)
    then have a1: "activeEditor s1 = Some i" using Some by (simp add: activeEditor_highlighted)
    from R True have f: "isHighlightingEnabled s1" "commitHashes s1 = commitHashes s"
      by (simp_all add: highlighted_def)
    have s2: "s2 = applyHighlighting env i (commitHashes s) (clearHighlighting i s1)"
      using a1 f True by (simp add: s2_def highlightActiveEditor_def clearHighlighting_fields Let_def)
    show ?thesis unfolding s2 unfolding s1 by (rule highlight_twice)
  next
    case False
    then have s1: "s1 = clearHighlighting i s"
      using Some by (auto simp: s1_def highlightActiveEditor_def clearHighlighting_fields Let_def)
    then have "activeEditor s1 = Some i"
      using Some by (simp add: activeEditor_def clearHighlighting_fields split: option.splits if_splits)
    with False have s2: "s2 = clearHighlighting i s1"
      by (auto simp: s2_def highlightActiveEditor_def s1 clearHighlighting_fields Let_def)
    show ?thesis unfolding s2 unfolding s1 by (simp add: clearHighlighting_twice)
  qed
qed

section \<open>Document edits\<close>


lemma paths_of_window:
  "(\<lambda>j. fsPath (eds ! j)) ` {..<length eds} = fsPath ` set eds"
proof
  show "(\<lambda>j. fsPath (eds ! j)) ` {..<length eds} \<subseteq> fsPath ` set eds"
    by (auto intro: imageI nth_mem)
  show "fsPath ` set eds \<subseteq> (\<lambda>j. fsPath (eds ! j)) ` {..<length eds}"
    by (auto simp: in_set_conv_nth)
qed

lemma triggerHighlighting_cache:
  assumes "isHighlightingEnabled s" "commitHashes s \<noteq> []"
  shows "blameCache (triggerHighlighting env s) =
           cacheAfterAll env (fsPath ` set (visibleTextEditors s)) (blameCache s)"
  using triggerHighlighting_highlighted[OF assms, of env]
  by (simp add: highlighted_def paths_of_window)


section \<open>The message \<^verbatim>\<open>updateCommitHashes\<close>\<close>

lemma trigger_window:
  assumes "isHighlightingEnabled s" "commitHashes s \<noteq> []"
  shows "length (visibleTextEditors (triggerHighlighting env s)) = length (visibleTextEditors s)"
    and "\<forall>j < length (visibleTextEditors s).
           visibleTextEditors (triggerHighlighting env s) ! j =
             setDecorations (planned env (commitHashes s) (blameCache s) (visibleTextEditors s ! j))
               (visibleTextEditors s ! j)"
    and "\<forall>p. p \<notin> fsPath ` set (visibleTextEditors s) \<longrightarrow>
           highlightedFiles (triggerHighlighting env s) p = highlightedFiles s p"
    and "commitHashes (triggerHighlighting env s) = commitHashes s"
    and "isHighlightingEnabled (triggerHighlighting env s) = isHighlightingEnabled s"
  using triggerHighlighting_highlighted[OF assms, of env]
  by (simp_all add: highlighted_def)

lemma update_same:
  "onDidReceiveMessage env (UpdateCommitHashes (commitHashes s)) s = saveState s"
  by simp

lemma update_changed_on:
  assumes "newHashes \<noteq> commitHashes s" "isHighlightingEnabled s" "newHashes \<noteq> []"
  shows "onDidReceiveMessage env (UpdateCommitHashes newHashes) s =
           saveState (triggerHighlighting env
             (snd (updateFilesForCommits env newHashes
                (s\<lparr>commitHashes := newHashes, blameCache := Map.empty\<rparr>))))"
  using assms by (simp add: JSON_stringify_inj clearAllBlameCache_def Let_def eq_commute)

lemma update_changed_off:
  assumes "newHashes \<noteq> commitHashes s" "\<not> (isHighlightingEnabled s \<and> newHashes \<noteq> [])"
  shows "onDidReceiveMessage env (UpdateCommitHashes newHashes) s =
           saveState (s\<lparr>commitHashes := newHashes, blameCache := Map.empty\<rparr>)"
  using assms by (auto simp: JSON_stringify_inj clearAllBlameCache_def Let_def eq_commute)

section \<open>Lines inside and outside the document\<close>


lemma matching_nohashes: "matching [] r = []"
  by (simp add: matching_def)

lemma highlight_in_document:
  assumes "i < length (visibleTextEditors s)"
    and "linesInDocument (visibleTextEditors s ! i)
           (matching hs (blameResult env (fsPath (visibleTextEditors s ! i)) (blameCache s)))"
  shows "visibleTextEditors (applyHighlighting env i hs (clearHighlighting i s)) ! i =
     setDecorations
       (concat (map decorationsOf
          (matching hs (blameResult env (fsPath (visibleTextEditors s ! i)) (blameCache s)))))
       (visibleTextEditors s ! i)"
  by (simp add: highlight_decorations[OF assms(1)] collectDecorations_ok[OF assms(2)] matching_nohashes)

lemma not_in_document:
  assumes "\<not> linesInDocument ed (matching hs r)"
  shows "hs \<noteq> []" "r \<noteq> []"
  using assms by (auto simp: linesInDocument_def matching_def)

lemma applyHighlighting_trace_fail:
  assumes "i < length (visibleTextEditors s)" "hs \<noteq> []"
    and "blameResult env (fsPath (visibleTextEditors s ! i)) (blameCache s) \<noteq> []"
    and "collectDecorations (visibleTextEditors s ! i) hs
           (blameResult env (fsPath (visibleTextEditors s ! i)) (blameCache s)) = Inl err"
  shows "trace (applyHighlighting env i hs s) =
           trace (snd (getBlameInfoForFile env (fsPath (visibleTextEditors s ! i)) s)) @
             [ConsoleError (''Error applying highlighting: '' @ err),
              ShowErrorMessage (''Error applying highlighting: '' @ err)]"
  unfolding applyHighlighting_def Let_def
  apply (subst getBlame_split)
  using assms apply (simp add: applyHighlighting_catch_def emit_def)
  done

lemma highlight_out_of_document:
  assumes i: "i < length (visibleTextEditors s)"
    and nl: "\<not> linesInDocument (visibleTextEditors s ! i)
           (matching hs (blameResult env (fsPath (visibleTextEditors s ! i)) (blameCache s)))"
  shows "visibleTextEditors (applyHighlighting env i hs (clearHighlighting i s)) ! i =
           setDecorations [] (visibleTextEditors s ! i)"
    and "highlightedFiles (applyHighlighting env i hs (clearHighlighting i s))
           (fsPath (visibleTextEditors s ! i)) = None"
    and "trace (applyHighlighting env i hs (clearHighlighting i s)) =
           trace (snd (getBlameInfoForFile env (fsPath (visibleTextEditors s ! i)) (clearHighlighting i s))) @
             [ConsoleError ''Error applying highlighting: Error: Illegal value for `line`'',
              ShowErrorMessage ''Error applying highlighting: Error: Illegal value for `line`'']"
proof -
  let ?ed = "visibleTextEditors s ! i"
  let ?r = "blameResult env (fsPath ?ed) (blameCache s)"
  let ?s1 = "clearHighlighting i s"
  note ne = not_in_document[OF nl]
  note c = collectDecorations_fail[OF nl]
  from i have i1: "i < length (visibleTextEditors ?s1)" by (simp add: clearHighlighting_fields)
  from i have ed1: "visibleTextEditors ?s1 ! i = setDecorations [] ?ed"
    by (simp add: clearHighlighting_fields)
  show "visibleTextEditors (applyHighlighting env i hs ?s1) ! i = setDecorations [] ?ed"
    using ne(1) by (simp add: highlight_decorations[OF i] c)
  show "highlightedFiles (applyHighlighting env i hs ?s1) (fsPath ?ed) = None"
    using i ne by (simp add: applyHighlighting_files clearHighlighting_fields filesAfter_def Let_def c)
  have "trace (applyHighlighting env i hs ?s1) =
           trace (snd (getBlameInfoForFile env (fsPath (visibleTextEditors ?s1 ! i)) ?s1)) @
             [ConsoleError (''Error applying highlighting: '' @ ''Error: Illegal value for `line`''),
              ShowErrorMessage (''Error applying highlighting: '' @ ''Error: Illegal value for `line`'')]"
    using ne by (intro applyHighlighting_trace_fail[OF i1]) (simp_all add: ed1 clearHighlighting_fields c)
  then show "trace (applyHighlighting env i hs ?s1) =
           trace (snd (getBlameInfoForFile env (fsPath ?ed) ?s1)) @
             [ConsoleError ''Error applying highlighting: Error: Illegal value for `line`'',
              ShowErrorMessage ''Error applying highlighting: Error: Illegal value for `line`'']"
    by (simp add: ed1)
qed

section \<open>The file index of an open file\<close>






section \<open>What a run adds to the trace\<close>









section \<open>The window after a document edit\<close>



section \<open>The cache invariant holds in every reachable state\<close>

lemma wf_queryBlame: "queryBlame env p = Some r \<Longrightarrow> wf_record r"
  by (auto simp: queryBlame_def parseBlame_wf split: option.splits sum.splits)

lemma cache_inv_cache:
  "cache_inv s \<Longrightarrow> blameCache s' = cacheAfterAll env P (blameCache s) \<Longrightarrow> cache_inv s'"
  by (auto simp: cache_inv_def cacheAfterAll_def wf_queryBlame split: if_splits option.splits)

lemma cache_inv_same: "cache_inv s \<Longrightarrow> blameCache s' = blameCache s \<Longrightarrow> cache_inv s'"
  by (simp add: cache_inv_def)

lemma cache_inv_empty: "blameCache s = Map.empty \<Longrightarrow> cache_inv s"
  by (simp add: cache_inv_def)

lemma cache_inv_triggerHighlighting:
  assumes "cache_inv s"
  shows "cache_inv (triggerHighlighting env s)"
proof (cases "isHighlightingEnabled s \<and> commitHashes s \<noteq> []")
  case True
  then have "blameCache (triggerHighlighting env s) =
      cacheAfterAll env (fsPath ` set (visibleTextEditors s)) (blameCache s)"
    by (simp add: triggerHighlighting_cache)
  with assms show ?thesis by (rule cache_inv_cache)
next
  case False
  then have "blameCache (triggerHighlighting env s) = blameCache s"
    by (simp add: triggerHighlighting_off clearHighlighting_fields split: option.splits)
  with assms show ?thesis by (rule cache_inv_same)
qed

lemma cache_inv_applyHighlighting:
  assumes "cache_inv s"
  shows "cache_inv (applyHighlighting env i hs s)"
proof -
  have "blameCache (applyHighlighting env i hs s) = blameCache s \<or>
        blameCache (applyHighlighting env i hs s) =
          cacheAfterAll env {fsPath (visibleTextEditors s ! i)} (blameCache s)"
    by (simp add: applyHighlighting_cache cacheAfter_All)
  with assms show ?thesis using cache_inv_same cache_inv_cache by blast
qed

lemma cache_inv_onDidChangeTextDocument:
  assumes "cache_inv s"
  shows "cache_inv (onDidChangeTextDocument env document s)"
proof -
  have "cache_inv (clearBlameCache p s)" for p
    using assms by (auto simp: cache_inv_def clearBlameCache_def split: if_splits)
  then show ?thesis
    using assms by (auto simp: onDidChangeTextDocument_def Let_def cache_inv_triggerHighlighting
        split: option.splits)
qed

lemma cache_inv_onDidReceiveMessage:
  assumes "cache_inv s"
  shows "cache_inv (onDidReceiveMessage env m s)"
proof (cases m)
  case (UpdateCommitHashes newHashes)
  let ?s1 = "s\<lparr>commitHashes := newHashes, blameCache := Map.empty\<rparr>"
  have a: "cache_inv ?s1" by (simp add: cache_inv_def)
  have b: "cache_inv (snd (updateFilesForCommits env newHashes ?s1))"
    using a by (rule cache_inv_same) (simp add: updateFilesForCommits_fields)
  have "cache_inv (if JSON_stringify (commitHashes s) \<noteq> JSON_stringify newHashes then
          (let s1 = clearAllBlameCache (s\<lparr>commitHashes := newHashes\<rparr>)
           in if isHighlightingEnabled s1 \<and> commitHashes s1 \<noteq> [] then
                triggerHighlighting env (snd (updateFilesForCommits env (commitHashes s1) s1))
              else s1)
        else s)"
    using assms a b by (simp add: clearAllBlameCache_def Let_def cache_inv_triggerHighlighting)
  then show ?thesis
    unfolding UpdateCommitHashes onDidReceiveMessage.simps
    by (rule cache_inv_same) (simp add: saveState_fields)
next
  case (ToggleHighlighting v)
  have a: "cache_inv (s\<lparr>isHighlightingEnabled := x\<rparr>)" for x
    using assms by (simp add: cache_inv_def)
  have b: "cache_inv (snd (updateFilesForCommits env hs (s\<lparr>isHighlightingEnabled := x\<rparr>)))" for hs x
    using a by (rule cache_inv_same) (simp add: updateFilesForCommits_fields)
  have c: "cache_inv (clearAllHighlights (s\<lparr>isHighlightingEnabled := x\<rparr>))" for x
    using a by (rule cache_inv_same) (simp add: clearAllHighlights_fields)
  have "cache_inv (let s1 = s\<lparr>isHighlightingEnabled := v\<rparr>
        in if isHighlightingEnabled s1 then
             triggerHighlighting env
               (if commitHashes s1 \<noteq> [] then snd (updateFilesForCommits env (commitHashes s1) s1)
                else s1)
           else clearAllHighlights s1)"
    using a b c by (simp add: Let_def cache_inv_triggerHighlighting)
  then show ?thesis
    unfolding ToggleHighlighting onDidReceiveMessage.simps
    by (rule cache_inv_same) (simp add: saveState_fields)
next
  case ViewStateRestored
  with assms show ?thesis by (simp add: cache_inv_def emit_def)
qed

lemma reachable_cache_inv: "reachable s \<Longrightarrow> cache_inv s"
proof (induction rule: reachable.induct)
  case (start s) then show ?case by (simp add: cache_inv_empty)
next
  case (window s editors active) then show ?case by (simp add: cache_inv_def)
next
  case (active s env editor)
  then show ?case by (simp add: onDidChangeActiveTextEditor_def cache_inv_triggerHighlighting)
next
  case (edit s env document) then show ?case by (simp add: cache_inv_onDidChangeTextDocument)
next
  case (message s env m) then show ?case by (simp add: cache_inv_onDidReceiveMessage)
qed

section \<open>The concrete instances, evaluated\<close>

lemma example_record:
  "parseBlame example_stdout = [\<lparr>hash = hashA, lines = [0, 1, 2]\<rparr>, \<lparr>hash = hashB, lines = [3, 4]\<rparr>]"
  by code_simp

lemma boundary_record: "parseBlame boundary_stdout = [\<lparr>hash = hashB, lines = [1]\<rparr>]"
  by code_simp

lemma boundary_split: "length (split_nl boundary_stdout) = 3"
  by code_simp

lemma example_line3: "length (split_nl example_stdout) = 6 \<and> matchWord (split_nl example_stdout ! 3) = Some hashB"
  by code_simp

lemma boundary_split_last: "split_nl boundary_stdout ! 2 = []"
  by code_simp

lemma example_query:
  "queryBlame example_env ''/w/a.ts'' =
     Some [\<lparr>hash = hashA, lines = [0, 1, 2]\<rparr>, \<lparr>hash = hashB, lines = [3, 4]\<rparr>]"
  by (simp add: queryBlame_def example_env_def example_record)

lemma hashA_neq_hashB [simp]: "hashA \<noteq> hashB" "hashB \<noteq> hashA"
  by (simp_all add: hashA_def hashB_def)

lemma example_blameResult:
  "blameResult example_env ''/w/a.ts'' Map.empty =
     [\<lparr>hash = hashA, lines = [0, 1, 2]\<rparr>, \<lparr>hash = hashB, lines = [3, 4]\<rparr>]"
  by (simp add: blameResult_def example_query)

lemma highlighted_state_fields:
  "visibleTextEditors highlighted_state =
     [\<lparr>fsPath = ''/w/a.ts'', lineCount = 6,
       highlightDecorations =
         [\<lparr>range_line = 3, hoverMessage = ''Commit: '' @ hashB\<rparr>,
          \<lparr>range_line = 4, hoverMessage = ''Commit: '' @ hashB\<rparr>],
       minimapDecorations =
         [\<lparr>range_line = 3, hoverMessage = ''Commit: '' @ hashB\<rparr>,
          \<lparr>range_line = 4, hoverMessage = ''Commit: '' @ hashB\<rparr>]\<rparr>]"
  "highlightedFiles highlighted_state ''/w/a.ts'' = Some \<lparr>uri = ''/w/a.ts'', highlightCount = 2\<rparr>"
  "blameCache highlighted_state ''/w/a.ts'' =
     Some [\<lparr>hash = hashA, lines = [0, 1, 2]\<rparr>, \<lparr>hash = hashB, lines = [3, 4]\<rparr>]"
  "commitHashes highlighted_state = [hashB]"
  by (simp_all add: highlighted_state_def applyHighlighting_editors applyHighlighting_files
      applyHighlighting_cache applyHighlighting_frame clearHighlighting_fields
      editorsAfter_def filesAfter_def cacheAfter_def example_state_def example_editor_def
      example_blameResult example_query lineAt_def setDecorations_def Let_def)

lemma example_resolved:
  "resolvedCommit example_env ''/w'' ''I4f2c'' = Some hashB"
  "resolvedCommit example_env ''/w'' ''Inone'' = None"
  by code_simp+

lemma example_changed: "changedFiles example_env ''/w'' hashB = [''a.ts'', ''lib/b.ts'']"
  by code_simp

lemma example_touched:
  "touchedFiles example_env ''/w'' [''Inone'', ''I4f2c''] = {''/w/a.ts'', ''/w/lib/b.ts''}"
  by (simp add: touchedFiles_def example_resolved example_changed) (simp add: example_env_def)

lemma short_hash: "strict_prefix (take 7 hashB) hashB"
proof -
  have "prefix (take 7 hashB) hashB" by (rule take_is_prefix)
  moreover have "take 7 hashB \<noteq> hashB" by (simp add: hashB_def)
  ultimately show ?thesis by (simp add: strict_prefix_def)
qed

lemma example_symbolic:
  "startsWith_I ''I4f2c''" "hashB \<notin> set [''I4f2c'']" "path_join example_env ''/w'' ''a.ts'' = ''/w/a.ts''"
  "workspaceFolders example_env = ''/w'' # []"
  by code_simp+

lemma reorder_state_fields:
  "commitHashes reorder_state = [hashA, hashB]" "isHighlightingEnabled reorder_state"
  "visibleTextEditors reorder_state = [example_editor]"
  "blameCache reorder_state ''/w/old.ts'' = Some [\<lparr>hash = hashA, lines = [0]\<rparr>]"
  by (simp_all add: reorder_state_def example_state_def)

lemma example_planned:
  "map range_line (planned example_env [hashB, hashA] Map.empty example_editor) = [0, 1, 2, 3, 4]"
  by (simp add: planned_def example_editor_def example_blameResult lineAt_def)

lemma edited_blame_trace:
  "trace (snd (getBlameInfoForFile example_env ''/w/a.ts'' (clearHighlighting 0 edited_state))) =
     [FireFileDecorations, Exec (blameCommand ''a.ts'') ''/w'']"
  by (simp add: getBlameInfoForFile_def getBlameInfoForFile_try_def clearHighlighting_def Let_def
      updateEditor_def emit_def refreshFileExplorerDecorations_def edited_state_def example_state_def
      example_editor_def example_env_def)


section \<open>The claims\<close>

subsection \<open>C1: the decorations are the lines of the matching hashes\<close>

text \<open>
  C1, as stated, is about every file with a record. It fails when the record names a
  line that the editor's document does not have: \<^verbatim>\<open>lineAt\<close> throws, the \<^verbatim>\<open>catch\<close> of
  \<^verbatim>\<open>applyHighlighting\<close> reports the error, and no decoration is applied. Here the
  document has four lines, the record attributes lines 3 and 4 to the active hash, and
  the editor ends with no decoration where the claim promises two.
\<close>

theorem applyHighlighting_short_document_counterexample:
  "fst (getBlameInfoForFile example_env ''/w/a.ts'' edited_state) =
     Inr [\<lparr>hash = hashA, lines = [0, 1, 2]\<rparr>, \<lparr>hash = hashB, lines = [3, 4]\<rparr>] \<and>
   recordLines [\<lparr>hash = hashA, lines = [0, 1, 2]\<rparr>, \<lparr>hash = hashB, lines = [3, 4]\<rparr>] hashB = [3, 4] \<and>
   highlightDecorations
     (visibleTextEditors
        (applyHighlighting example_env 0 [hashB] (clearHighlighting 0 edited_state)) ! 0) = []"
  by (simp add: getBlame_result highlight_decorations edited_state_def example_state_def
      example_editor_def example_blameResult recordLines_def lineAt_def)

text \<open>
  C1, amended: for an editor of the window and any list of active identifiers, let \<open>r\<close>
  be the record \<^verbatim>\<open>getBlameInfoForFile\<close> yields for the editor's file (cached or
  computed) and \<open>S\<close> the active identifiers that are hashes of \<open>r\<close>. If every line of
  the hashes in \<open>S\<close> is a line of the editor's document, and the cached records are
  partitions (they are in every reachable state, by \<open>reachable_cache_inv\<close>), then after
  \<^verbatim>\<open>clearHighlighting\<close> and \<^verbatim>\<open>applyHighlighting\<close> the number of decorations is the
  sum of the line counts of the hashes in \<open>S\<close>, the decorated lines are the union of
  their line lists, no line is decorated twice, and the minimap decorations are the
  same. If some line of a hash in \<open>S\<close> is not a line of the document, \<^verbatim>\<open>lineAt\<close>
  throws: the editor is left with no decoration, the file with no entry in the file
  index, and the last two events are the error line on the console and the error
  pop-up.
\<close>

theorem applyHighlighting_decorates_matching_lines:
  assumes "i < length (visibleTextEditors s)"
    and "fst (getBlameInfoForFile env (fsPath (visibleTextEditors s ! i)) s) = Inr r"
  shows "let editor = visibleTextEditors s ! i;
             s' = applyHighlighting env i hs (clearHighlighting i s);
             editor' = visibleTextEditors s' ! i;
             S = set hs \<inter> hash ` set r
         in (cache_inv s \<and> linesInDocument editor (matching hs r) \<longrightarrow>
               length (highlightDecorations editor') = (\<Sum>h \<in> S. length (recordLines r h)) \<and>
               set (map range_line (highlightDecorations editor')) = (\<Union>h \<in> S. set (recordLines r h)) \<and>
               distinct (map range_line (highlightDecorations editor')) \<and>
               minimapDecorations editor' = highlightDecorations editor') \<and>
            (\<not> linesInDocument editor (matching hs r) \<longrightarrow>
               highlightDecorations editor' = [] \<and> minimapDecorations editor' = [] \<and>
               highlightedFiles s' (fsPath editor) = None \<and>
               trace s' =
                 trace (snd (getBlameInfoForFile env (fsPath editor) (clearHighlighting i s))) @
                   [ConsoleError ''Error applying highlighting: Error: Illegal value for `line`'',
                    ShowErrorMessage ''Error applying highlighting: Error: Illegal value for `line`''])"
proof -
  let ?ed = "visibleTextEditors s ! i"
  let ?s' = "applyHighlighting env i hs (clearHighlighting i s)"
  let ?ed' = "visibleTextEditors ?s' ! i"
  let ?S = "set hs \<inter> hash ` set r"
  from assms(2) have r: "blameResult env (fsPath ?ed) (blameCache s) = r"
    by (simp add: getBlame_result)
  have A: "cache_inv s \<and> linesInDocument ?ed (matching hs r) \<longrightarrow>
               length (highlightDecorations ?ed') = (\<Sum>h \<in> ?S. length (recordLines r h)) \<and>
               set (map range_line (highlightDecorations ?ed')) = (\<Union>h \<in> ?S. set (recordLines r h)) \<and>
               distinct (map range_line (highlightDecorations ?ed')) \<and>
               minimapDecorations ?ed' = highlightDecorations ?ed'"
  proof (intro impI, elim conjE)
    assume ci: "cache_inv s" and lin: "linesInDocument ?ed (matching hs r)"
    from ci assms(2) have wf: "wf_record r" by (rule getBlame_wf)
    then have dh: "distinct (map hash r)" and dl: "distinct (concat (map lines r))"
      by (simp_all add: wf_record_def)
    let ?ds = "concat (map decorationsOf (matching hs r))"
    from lin have "linesInDocument ?ed (matching hs (blameResult env (fsPath ?ed) (blameCache s)))"
      by (simp only: r)
    from highlight_in_document[OF assms(1) this]
    have ed: "?ed' = setDecorations ?ds ?ed" by (simp only: r)
    have 1: "length ?ds = (\<Sum>h \<in> ?S. length (recordLines r h))"
      by (simp only: length_concat_decorations matching_sum[OF dh])
    have 2: "set (map range_line ?ds) = (\<Union>h \<in> ?S. set (recordLines r h))"
      by (simp only: range_concat_decorations matching_lines[OF dh])
    have 3: "distinct (map range_line ?ds)"
      unfolding range_concat_decorations matching_def using dl by (rule distinct_concat_filter)
    show "length (highlightDecorations ?ed') = (\<Sum>h \<in> ?S. length (recordLines r h)) \<and>
               set (map range_line (highlightDecorations ?ed')) = (\<Union>h \<in> ?S. set (recordLines r h)) \<and>
               distinct (map range_line (highlightDecorations ?ed')) \<and>
               minimapDecorations ?ed' = highlightDecorations ?ed'"
      unfolding ed using 1 2 3 by simp
  qed
  have B: "\<not> linesInDocument ?ed (matching hs r) \<longrightarrow>
               highlightDecorations ?ed' = [] \<and> minimapDecorations ?ed' = [] \<and>
               highlightedFiles ?s' (fsPath ?ed) = None \<and>
               trace ?s' =
                 trace (snd (getBlameInfoForFile env (fsPath ?ed) (clearHighlighting i s))) @
                   [ConsoleError ''Error applying highlighting: Error: Illegal value for `line`'',
                    ShowErrorMessage ''Error applying highlighting: Error: Illegal value for `line`'']"
  proof
    assume "\<not> linesInDocument ?ed (matching hs r)"
    then have nl: "\<not> linesInDocument ?ed (matching hs (blameResult env (fsPath ?ed) (blameCache s)))"
      by (simp add: r)
    note o = highlight_out_of_document[OF assms(1) nl]
    have "highlightDecorations ?ed' = []" "minimapDecorations ?ed' = []"
      by (simp_all add: o(1))
    with o(2) o(3) show "highlightDecorations ?ed' = [] \<and> minimapDecorations ?ed' = [] \<and>
               highlightedFiles ?s' (fsPath ?ed) = None \<and>
               trace ?s' =
                 trace (snd (getBlameInfoForFile env (fsPath ?ed) (clearHighlighting i s))) @
                   [ConsoleError ''Error applying highlighting: Error: Illegal value for `line`'',
                    ShowErrorMessage ''Error applying highlighting: Error: Illegal value for `line`'']"
      by (intro conjI)
  qed
  show ?thesis unfolding Let_def by (rule conjI, rule A, rule B)
qed

text \<open>
  The instances: the specification's example (lines 3 and 4, two decorations), and the
  same file in an editor whose document has only four lines (no decoration, no entry,
  the error reported after the blame command).
\<close>

theorem applyHighlighting_decorates_matching_lines_witness:
  "length (highlightDecorations
     (visibleTextEditors
        (applyHighlighting example_env 0 [hashB] (clearHighlighting 0 example_state)) ! 0)) = 2 \<and>
   set (map range_line (highlightDecorations
     (visibleTextEditors
        (applyHighlighting example_env 0 [hashB] (clearHighlighting 0 example_state)) ! 0))) = {3, 4} \<and>
   highlightDecorations
     (visibleTextEditors
        (applyHighlighting example_env 0 [hashB] (clearHighlighting 0 edited_state)) ! 0) = [] \<and>
   highlightedFiles (applyHighlighting example_env 0 [hashB] (clearHighlighting 0 edited_state))
     ''/w/a.ts'' = None \<and>
   trace (applyHighlighting example_env 0 [hashB] (clearHighlighting 0 edited_state)) =
     [FireFileDecorations, Exec (blameCommand ''a.ts'') ''/w'',
      ConsoleError ''Error applying highlighting: Error: Illegal value for `line`'',
      ShowErrorMessage ''Error applying highlighting: Error: Illegal value for `line`'']"
proof -
  let ?r = "[\<lparr>hash = hashA, lines = [0, 1, 2]\<rparr>, \<lparr>hash = hashB, lines = [3, 4]\<rparr>]"
  have 1: "cache_inv example_state" by (simp add: cache_inv_def example_state_def)
  have 2: "0 < length (visibleTextEditors example_state)" by (simp add: example_state_def)
  have 4: "fst (getBlameInfoForFile example_env (fsPath (visibleTextEditors example_state ! 0))
              example_state) = Inr ?r"
    by (simp add: getBlame_result example_state_def example_editor_def example_blameResult)
  have 5: "linesInDocument (visibleTextEditors example_state ! 0) (matching [hashB] ?r)"
    by (simp add: linesInDocument_def matching_def example_state_def example_editor_def)
  have S: "set [hashB] \<inter> hash ` set ?r = {hashB}" by auto
  have e2: "0 < length (visibleTextEditors edited_state)"
    by (simp add: edited_state_def example_state_def)
  have e4: "fst (getBlameInfoForFile example_env (fsPath (visibleTextEditors edited_state ! 0))
              edited_state) = Inr ?r"
    by (simp add: getBlame_result edited_state_def example_state_def example_editor_def
        example_blameResult)
  have e5: "\<not> linesInDocument (visibleTextEditors edited_state ! 0) (matching [hashB] ?r)"
    by (simp add: linesInDocument_def matching_def edited_state_def example_state_def
        example_editor_def)
  have p: "fsPath (visibleTextEditors edited_state ! 0) = ''/w/a.ts''"
    by (simp add: edited_state_def example_state_def example_editor_def)
  from applyHighlighting_decorates_matching_lines[OF 2 4, of "[hashB]"] 1 5
  have a: "length (highlightDecorations
     (visibleTextEditors
        (applyHighlighting example_env 0 [hashB] (clearHighlighting 0 example_state)) ! 0)) = 2 \<and>
   set (map range_line (highlightDecorations
     (visibleTextEditors
        (applyHighlighting example_env 0 [hashB] (clearHighlighting 0 example_state)) ! 0))) = {3, 4}"
    unfolding Let_def S by (simp add: recordLines_def)
  from applyHighlighting_decorates_matching_lines[OF e2 e4, of "[hashB]"] e5
  have b: "highlightDecorations
     (visibleTextEditors
        (applyHighlighting example_env 0 [hashB] (clearHighlighting 0 edited_state)) ! 0) = [] \<and>
   highlightedFiles (applyHighlighting example_env 0 [hashB] (clearHighlighting 0 edited_state))
     ''/w/a.ts'' = None \<and>
   trace (applyHighlighting example_env 0 [hashB] (clearHighlighting 0 edited_state)) =
     [FireFileDecorations, Exec (blameCommand ''a.ts'') ''/w'',
      ConsoleError ''Error applying highlighting: Error: Illegal value for `line`'',
      ShowErrorMessage ''Error applying highlighting: Error: Illegal value for `line`'']"
    unfolding Let_def p by (simp add: edited_blame_trace)
  from a b show ?thesis by simp
qed

subsection \<open>C2: \<^verbatim>\<open>getBlameInfoForFile\<close> never throws\<close>

text \<open>
  C2: for every path and state \<^verbatim>\<open>getBlameInfoForFile\<close> returns a record and never
  throws to its caller. When the file is not cached and has no workspace folder it
  returns the empty record, caches nothing and logs one error line; when the blame
  command fails it returns the empty record, caches nothing, logs the error and shows
  it. (A cached record is returned before any of this is looked at.)
\<close>

theorem getBlameInfoForFile_never_throws:
  "(\<exists>r. fst (getBlameInfoForFile env p s) = Inr r) \<and>
   (blameCache s p = None \<and> getWorkspaceFolder env p = None \<longrightarrow>
      fst (getBlameInfoForFile env p s) = Inr [] \<and>
      blameCache (snd (getBlameInfoForFile env p s)) = blameCache s \<and>
      trace (snd (getBlameInfoForFile env p s)) =
        trace s @ [ConsoleError ''File is not in a workspace folder'']) \<and>
   (\<forall>root err.
      blameCache s p = None \<and> getWorkspaceFolder env p = Some root \<and>
      exec env (blameCommand (path_relative env root p)) root = Inl err \<longrightarrow>
      fst (getBlameInfoForFile env p s) = Inr [] \<and>
      blameCache (snd (getBlameInfoForFile env p s)) = blameCache s \<and>
      trace (snd (getBlameInfoForFile env p s)) =
        trace s @ [Exec (blameCommand (path_relative env root p)) root,
                   ConsoleError (''Error getting blame info: '' @ err),
                   ShowErrorMessage (''Failed to get Git blame info: '' @ err)])"
proof -
  have 1: "\<exists>r. fst (getBlameInfoForFile env p s) = Inr r" by (simp add: getBlame_result)
  have 2: "blameCache s p = None \<and> getWorkspaceFolder env p = None \<longrightarrow>
      fst (getBlameInfoForFile env p s) = Inr [] \<and>
      blameCache (snd (getBlameInfoForFile env p s)) = blameCache s \<and>
      trace (snd (getBlameInfoForFile env p s)) =
        trace s @ [ConsoleError ''File is not in a workspace folder'']"
    by (simp add: getBlameInfoForFile_def getBlameInfoForFile_try_def emit_def)
  have 3: "\<forall>root err.
      blameCache s p = None \<and> getWorkspaceFolder env p = Some root \<and>
      exec env (blameCommand (path_relative env root p)) root = Inl err \<longrightarrow>
      fst (getBlameInfoForFile env p s) = Inr [] \<and>
      blameCache (snd (getBlameInfoForFile env p s)) = blameCache s \<and>
      trace (snd (getBlameInfoForFile env p s)) =
        trace s @ [Exec (blameCommand (path_relative env root p)) root,
                   ConsoleError (''Error getting blame info: '' @ err),
                   ShowErrorMessage (''Failed to get Git blame info: '' @ err)]"
    by (simp add: getBlameInfoForFile_def getBlameInfoForFile_try_def emit_def Let_def)
  show ?thesis by (rule conjI, rule 1, rule conjI, rule 2, rule 3)
qed

text \<open>
  Two instances: a file outside the workspace folder, and a file in it for which
  \<^verbatim>\<open>git blame\<close> fails.
\<close>

theorem getBlameInfoForFile_never_throws_witness:
  "fst (getBlameInfoForFile example_env ''/tmp/notes.txt'' example_state) = Inr [] \<and>
   trace (snd (getBlameInfoForFile example_env ''/tmp/notes.txt'' example_state)) =
     [ConsoleError ''File is not in a workspace folder''] \<and>
   fst (getBlameInfoForFile example_env ''/w/logo.png'' example_state) = Inr [] \<and>
   trace (snd (getBlameInfoForFile example_env ''/w/logo.png'' example_state)) =
     [Exec (blameCommand ''logo.png'') ''/w'',
      ConsoleError ''Error getting blame info: Error: Command failed'',
      ShowErrorMessage ''Failed to get Git blame info: Error: Command failed'']"
proof -
  have c: "blameCache example_state ''/tmp/notes.txt'' = None"
          "blameCache example_state ''/w/logo.png'' = None"
          "trace example_state = []"
    by (simp_all add: example_state_def)
  have w: "getWorkspaceFolder example_env ''/tmp/notes.txt'' = None"
          "getWorkspaceFolder example_env ''/w/logo.png'' = Some ''/w''"
          "path_relative example_env ''/w'' ''/w/logo.png'' = ''logo.png''"
    by (simp_all add: example_env_def)
  have e: "exec example_env (blameCommand ''logo.png'') ''/w'' = Inl ''Error: Command failed''"
    by (simp add: example_env_def blameCommand_def diffTreeCommand_def logGrepCommand_def)
  from getBlameInfoForFile_never_throws[of example_env "''/tmp/notes.txt''" example_state]
       getBlameInfoForFile_never_throws[of example_env "''/w/logo.png''" example_state]
  show ?thesis using c w e by simp
qed

subsection \<open>C3: a document edit and the cached record\<close>




subsection \<open>C4: the identifier list is compared in order\<close>

text \<open>
  C4: the listener compares the \<^verbatim>\<open>JSON.stringify\<close> images of the current and the new
  list, which are equal exactly when the lists are equal element for element. For an
  identical list the message changes neither the blame cache, the file index, the
  editors nor the identifiers, and runs no command (it only posts the state). A list
  that differs, be it a reordering of the same identifiers, replaces the identifiers and
  drops the whole cache: the outcome does not depend on what was cached. When
  highlighting is enabled and the new list is not empty, everything is computed again:
  the cache then holds exactly git's present answer for the file of every visible
  editor and nothing else, every visible editor shows the decorations computed from
  that answer, and the index outside the visible files is the touched files of the new
  list. Otherwise the cache is left empty and editors and index are untouched.
\<close>

theorem updateCommitHashes_order_sensitive:
  "((JSON_stringify (commitHashes s) = JSON_stringify newHashes) = (commitHashes s = newHashes)) \<and>
   (newHashes = commitHashes s \<longrightarrow>
      blameCache (onDidReceiveMessage env (UpdateCommitHashes newHashes) s) = blameCache s \<and>
      highlightedFiles (onDidReceiveMessage env (UpdateCommitHashes newHashes) s) = highlightedFiles s \<and>
      visibleTextEditors (onDidReceiveMessage env (UpdateCommitHashes newHashes) s) = visibleTextEditors s \<and>
      commitHashes (onDidReceiveMessage env (UpdateCommitHashes newHashes) s) = commitHashes s \<and>
      trace (onDidReceiveMessage env (UpdateCommitHashes newHashes) s) =
        trace s @ [PostRestoreState (commitHashes s) (isHighlightingEnabled s)]) \<and>
   (newHashes \<noteq> commitHashes s \<longrightarrow>
      commitHashes (onDidReceiveMessage env (UpdateCommitHashes newHashes) s) = newHashes \<and>
      onDidReceiveMessage env (UpdateCommitHashes newHashes) s =
        onDidReceiveMessage env (UpdateCommitHashes newHashes) (s\<lparr>blameCache := Map.empty\<rparr>) \<and>
      (isHighlightingEnabled s \<and> newHashes \<noteq> [] \<longrightarrow>
         blameCache (onDidReceiveMessage env (UpdateCommitHashes newHashes) s) =
           (\<lambda>p. if p \<in> fsPath ` set (visibleTextEditors s) then queryBlame env p else None) \<and>
         length (visibleTextEditors (onDidReceiveMessage env (UpdateCommitHashes newHashes) s)) =
           length (visibleTextEditors s) \<and>
         (\<forall>j < length (visibleTextEditors s).
            visibleTextEditors (onDidReceiveMessage env (UpdateCommitHashes newHashes) s) ! j =
              setDecorations (planned env newHashes Map.empty (visibleTextEditors s ! j))
                (visibleTextEditors s ! j)) \<and>
         (\<forall>p. p \<notin> fsPath ` set (visibleTextEditors s) \<longrightarrow>
            highlightedFiles (onDidReceiveMessage env (UpdateCommitHashes newHashes) s) p =
              (case workspaceFolders env of
                 [] \<Rightarrow> None
               | root # others \<Rightarrow>
                   if p \<in> touchedFiles env root newHashes
                   then Some \<lparr>uri = p, highlightCount = 1\<rparr> else None))) \<and>
      (\<not> (isHighlightingEnabled s \<and> newHashes \<noteq> []) \<longrightarrow>
         blameCache (onDidReceiveMessage env (UpdateCommitHashes newHashes) s) = Map.empty \<and>
         visibleTextEditors (onDidReceiveMessage env (UpdateCommitHashes newHashes) s) = visibleTextEditors s \<and>
         highlightedFiles (onDidReceiveMessage env (UpdateCommitHashes newHashes) s) = highlightedFiles s))"
proof -
  let ?s' = "onDidReceiveMessage env (UpdateCommitHashes newHashes) s"
  have 1: "(JSON_stringify (commitHashes s) = JSON_stringify newHashes) = (commitHashes s = newHashes)"
    by (rule JSON_stringify_inj)
  have 2: "newHashes = commitHashes s \<longrightarrow>
      blameCache ?s' = blameCache s \<and> highlightedFiles ?s' = highlightedFiles s \<and>
      visibleTextEditors ?s' = visibleTextEditors s \<and> commitHashes ?s' = commitHashes s \<and>
      trace ?s' = trace s @ [PostRestoreState (commitHashes s) (isHighlightingEnabled s)]"
    by (simp add: saveState_def emit_def)
  have 3: "newHashes \<noteq> commitHashes s \<longrightarrow>
      commitHashes ?s' = newHashes \<and>
      ?s' = onDidReceiveMessage env (UpdateCommitHashes newHashes) (s\<lparr>blameCache := Map.empty\<rparr>) \<and>
      (isHighlightingEnabled s \<and> newHashes \<noteq> [] \<longrightarrow>
         blameCache ?s' =
           (\<lambda>p. if p \<in> fsPath ` set (visibleTextEditors s) then queryBlame env p else None) \<and>
         length (visibleTextEditors ?s') = length (visibleTextEditors s) \<and>
         (\<forall>j < length (visibleTextEditors s).
            visibleTextEditors ?s' ! j =
              setDecorations (planned env newHashes Map.empty (visibleTextEditors s ! j))
                (visibleTextEditors s ! j)) \<and>
         (\<forall>p. p \<notin> fsPath ` set (visibleTextEditors s) \<longrightarrow>
            highlightedFiles ?s' p =
              (case workspaceFolders env of
                 [] \<Rightarrow> None
               | root # others \<Rightarrow>
                   if p \<in> touchedFiles env root newHashes
                   then Some \<lparr>uri = p, highlightCount = 1\<rparr> else None))) \<and>
      (\<not> (isHighlightingEnabled s \<and> newHashes \<noteq> []) \<longrightarrow>
         blameCache ?s' = Map.empty \<and> visibleTextEditors ?s' = visibleTextEditors s \<and>
         highlightedFiles ?s' = highlightedFiles s)"
  proof (intro impI)
    assume ne: "newHashes \<noteq> commitHashes s"
    have indep: "?s' = onDidReceiveMessage env (UpdateCommitHashes newHashes) (s\<lparr>blameCache := Map.empty\<rparr>)"
      using ne by (simp add: JSON_stringify_inj clearAllBlameCache_def Let_def eq_commute)
    have on: "isHighlightingEnabled s \<and> newHashes \<noteq> [] \<longrightarrow>
         commitHashes ?s' = newHashes \<and>
         blameCache ?s' =
           (\<lambda>p. if p \<in> fsPath ` set (visibleTextEditors s) then queryBlame env p else None) \<and>
         length (visibleTextEditors ?s') = length (visibleTextEditors s) \<and>
         (\<forall>j < length (visibleTextEditors s).
            visibleTextEditors ?s' ! j =
              setDecorations (planned env newHashes Map.empty (visibleTextEditors s ! j))
                (visibleTextEditors s ! j)) \<and>
         (\<forall>p. p \<notin> fsPath ` set (visibleTextEditors s) \<longrightarrow>
            highlightedFiles ?s' p =
              (case workspaceFolders env of
                 [] \<Rightarrow> None
               | root # others \<Rightarrow>
                   if p \<in> touchedFiles env root newHashes
                   then Some \<lparr>uri = p, highlightCount = 1\<rparr> else None))"
    proof (intro impI, elim conjE)
      assume en: "isHighlightingEnabled s" and nn: "newHashes \<noteq> []"
      define s2 where "s2 = snd (updateFilesForCommits env newHashes
                (s\<lparr>commitHashes := newHashes, blameCache := Map.empty\<rparr>))"
      have s': "?s' = saveState (triggerHighlighting env s2)"
        unfolding s2_def by (rule update_changed_on[OF ne en nn])
      have f2: "blameCache s2 = Map.empty" "commitHashes s2 = newHashes" "isHighlightingEnabled s2"
          "visibleTextEditors s2 = visibleTextEditors s"
        using en by (simp_all add: s2_def updateFilesForCommits_fields)
      have h2: "highlightedFiles s2 =
          (case workspaceFolders env of [] \<Rightarrow> Map.empty
           | w # _ \<Rightarrow> touchedEntry (touchedFiles env w newHashes) Map.empty)"
        by (simp add: s2_def updateFilesForCommits_files)
      from f2 nn have pre: "isHighlightingEnabled s2" "commitHashes s2 \<noteq> []" by simp_all
      note w = trigger_window[OF pre, of env]
      have a: "commitHashes ?s' = newHashes" unfolding s' by (simp add: saveState_fields w(4) f2)
      have b: "blameCache ?s' =
           (\<lambda>p. if p \<in> fsPath ` set (visibleTextEditors s) then queryBlame env p else None)"
        unfolding s' by (auto simp: saveState_fields triggerHighlighting_cache[OF pre] f2 cacheAfterAll_def)
      have c: "length (visibleTextEditors ?s') = length (visibleTextEditors s)"
        unfolding s' by (simp add: saveState_fields w(1) f2)
      have d: "\<forall>j < length (visibleTextEditors s).
            visibleTextEditors ?s' ! j =
              setDecorations (planned env newHashes Map.empty (visibleTextEditors s ! j))
                (visibleTextEditors s ! j)"
        unfolding s' using w(2) by (simp add: saveState_fields f2)
      have e: "\<forall>p. p \<notin> fsPath ` set (visibleTextEditors s) \<longrightarrow>
            highlightedFiles ?s' p =
              (case workspaceFolders env of
                 [] \<Rightarrow> None
               | root # others \<Rightarrow>
                   if p \<in> touchedFiles env root newHashes
                   then Some \<lparr>uri = p, highlightCount = 1\<rparr> else None)"
        unfolding s' using w(3) by (simp add: saveState_fields f2 h2 touchedEntry_def split: list.splits)
      show "commitHashes ?s' = newHashes \<and>
         blameCache ?s' =
           (\<lambda>p. if p \<in> fsPath ` set (visibleTextEditors s) then queryBlame env p else None) \<and>
         length (visibleTextEditors ?s') = length (visibleTextEditors s) \<and>
         (\<forall>j < length (visibleTextEditors s).
            visibleTextEditors ?s' ! j =
              setDecorations (planned env newHashes Map.empty (visibleTextEditors s ! j))
                (visibleTextEditors s ! j)) \<and>
         (\<forall>p. p \<notin> fsPath ` set (visibleTextEditors s) \<longrightarrow>
            highlightedFiles ?s' p =
              (case workspaceFolders env of
                 [] \<Rightarrow> None
               | root # others \<Rightarrow>
                   if p \<in> touchedFiles env root newHashes
                   then Some \<lparr>uri = p, highlightCount = 1\<rparr> else None))"
        by (intro conjI a b c d e)
    qed
    have off: "\<not> (isHighlightingEnabled s \<and> newHashes \<noteq> []) \<longrightarrow>
         commitHashes ?s' = newHashes \<and>
         blameCache ?s' = Map.empty \<and> visibleTextEditors ?s' = visibleTextEditors s \<and>
         highlightedFiles ?s' = highlightedFiles s"
    proof
      assume n: "\<not> (isHighlightingEnabled s \<and> newHashes \<noteq> [])"
      show "commitHashes ?s' = newHashes \<and>
         blameCache ?s' = Map.empty \<and> visibleTextEditors ?s' = visibleTextEditors s \<and>
         highlightedFiles ?s' = highlightedFiles s"
        unfolding update_changed_off[OF ne n] by (simp add: saveState_fields)
    qed
    from on off have ch: "commitHashes ?s' = newHashes" by blast
    from on have on1: "isHighlightingEnabled s \<and> newHashes \<noteq> [] \<longrightarrow>
         blameCache ?s' =
           (\<lambda>p. if p \<in> fsPath ` set (visibleTextEditors s) then queryBlame env p else None) \<and>
         length (visibleTextEditors ?s') = length (visibleTextEditors s) \<and>
         (\<forall>j < length (visibleTextEditors s).
            visibleTextEditors ?s' ! j =
              setDecorations (planned env newHashes Map.empty (visibleTextEditors s ! j))
                (visibleTextEditors s ! j)) \<and>
         (\<forall>p. p \<notin> fsPath ` set (visibleTextEditors s) \<longrightarrow>
            highlightedFiles ?s' p =
              (case workspaceFolders env of
                 [] \<Rightarrow> None
               | root # others \<Rightarrow>
                   if p \<in> touchedFiles env root newHashes
                   then Some \<lparr>uri = p, highlightCount = 1\<rparr> else None))"
      by blast
    from off have off1: "\<not> (isHighlightingEnabled s \<and> newHashes \<noteq> []) \<longrightarrow>
         blameCache ?s' = Map.empty \<and> visibleTextEditors ?s' = visibleTextEditors s \<and>
         highlightedFiles ?s' = highlightedFiles s"
      by blast
    show "commitHashes ?s' = newHashes \<and>
      ?s' = onDidReceiveMessage env (UpdateCommitHashes newHashes) (s\<lparr>blameCache := Map.empty\<rparr>) \<and>
      (isHighlightingEnabled s \<and> newHashes \<noteq> [] \<longrightarrow>
         blameCache ?s' =
           (\<lambda>p. if p \<in> fsPath ` set (visibleTextEditors s) then queryBlame env p else None) \<and>
         length (visibleTextEditors ?s') = length (visibleTextEditors s) \<and>
         (\<forall>j < length (visibleTextEditors s).
            visibleTextEditors ?s' ! j =
              setDecorations (planned env newHashes Map.empty (visibleTextEditors s ! j))
                (visibleTextEditors s ! j)) \<and>
         (\<forall>p. p \<notin> fsPath ` set (visibleTextEditors s) \<longrightarrow>
            highlightedFiles ?s' p =
              (case workspaceFolders env of
                 [] \<Rightarrow> None
               | root # others \<Rightarrow>
                   if p \<in> touchedFiles env root newHashes
                   then Some \<lparr>uri = p, highlightCount = 1\<rparr> else None))) \<and>
      (\<not> (isHighlightingEnabled s \<and> newHashes \<noteq> []) \<longrightarrow>
         blameCache ?s' = Map.empty \<and> visibleTextEditors ?s' = visibleTextEditors s \<and>
         highlightedFiles ?s' = highlightedFiles s)"
      by (rule conjI, rule ch, rule conjI, rule indep, rule conjI, rule on1, rule off1)
  qed
  show ?thesis by (rule conjI, rule 1, rule conjI, rule 2, rule 3)
qed

text \<open>
  The instance of the specification's example: from \<open>[h1, h2]\<close>, the same list keeps the
  cached record of a closed file; the list \<open>[h2, h1]\<close> drops it, queries the open file
  again and decorates its five lines.
\<close>

theorem updateCommitHashes_order_sensitive_witness:
  "set [hashB, hashA] = set (commitHashes reorder_state) \<and> [hashB, hashA] \<noteq> commitHashes reorder_state \<and>
   blameCache (onDidReceiveMessage example_env (UpdateCommitHashes [hashA, hashB]) reorder_state) ''/w/old.ts'' =
     Some [\<lparr>hash = hashA, lines = [0]\<rparr>] \<and>
   blameCache (onDidReceiveMessage example_env (UpdateCommitHashes [hashB, hashA]) reorder_state) ''/w/old.ts'' =
     None \<and>
   blameCache (onDidReceiveMessage example_env (UpdateCommitHashes [hashB, hashA]) reorder_state) ''/w/a.ts'' =
     Some [\<lparr>hash = hashA, lines = [0, 1, 2]\<rparr>, \<lparr>hash = hashB, lines = [3, 4]\<rparr>] \<and>
   map range_line (highlightDecorations
     (visibleTextEditors
        (onDidReceiveMessage example_env (UpdateCommitHashes [hashB, hashA]) reorder_state) ! 0)) =
     [0, 1, 2, 3, 4]"
proof -
  let ?same = "onDidReceiveMessage example_env (UpdateCommitHashes [hashA, hashB]) reorder_state"
  let ?swap = "onDidReceiveMessage example_env (UpdateCommitHashes [hashB, hashA]) reorder_state"
  have ne: "[hashB, hashA] \<noteq> commitHashes reorder_state" by (simp add: reorder_state_fields)
  have eq: "[hashA, hashB] = commitHashes reorder_state" by (simp add: reorder_state_fields)
  have on: "isHighlightingEnabled reorder_state \<and> [hashB, hashA] \<noteq> []" by (simp add: reorder_state_fields)
  from updateCommitHashes_order_sensitive[of reorder_state "[hashA, hashB]" example_env] eq
  have 1: "blameCache ?same = blameCache reorder_state" by blast
  from updateCommitHashes_order_sensitive[of reorder_state "[hashB, hashA]" example_env] ne on
  have 2: "blameCache ?swap =
           (\<lambda>p. if p \<in> fsPath ` set (visibleTextEditors reorder_state) then queryBlame example_env p else None)"
    and 3: "\<forall>j < length (visibleTextEditors reorder_state).
            visibleTextEditors ?swap ! j =
              setDecorations (planned example_env [hashB, hashA] Map.empty (visibleTextEditors reorder_state ! j))
                (visibleTextEditors reorder_state ! j)"
    by blast+
  from 3 have 4: "visibleTextEditors ?swap ! 0 =
      setDecorations (planned example_env [hashB, hashA] Map.empty example_editor) example_editor"
    by (simp add: reorder_state_fields)
  have 5: "set [hashB, hashA] = set (commitHashes reorder_state)" by (auto simp: reorder_state_fields)
  have 6: "fsPath ` set (visibleTextEditors reorder_state) = {''/w/a.ts''}"
    by (simp add: reorder_state_fields example_editor_def)
  show ?thesis
    unfolding 1 2 4 6 using ne 5
    by (simp add: reorder_state_fields example_planned example_query)
qed

subsection \<open>C5: switching highlighting off\<close>

text \<open>
  C5: the message \<^verbatim>\<open>toggleHighlighting\<close> with value false leaves every visible editor
  (the same editors, on the same files) without highlight and minimap decorations,
  empties the file index, and leaves the active identifiers and the whole blame cache
  as they were.
\<close>

theorem toggle_off_clears_highlights_only:
  "(\<forall>ed \<in> set (visibleTextEditors (onDidReceiveMessage env (ToggleHighlighting False) s)).
      highlightDecorations ed = [] \<and> minimapDecorations ed = []) \<and>
   map fsPath (visibleTextEditors (onDidReceiveMessage env (ToggleHighlighting False) s)) =
     map fsPath (visibleTextEditors s) \<and>
   highlightedFiles (onDidReceiveMessage env (ToggleHighlighting False) s) = Map.empty \<and>
   commitHashes (onDidReceiveMessage env (ToggleHighlighting False) s) = commitHashes s \<and>
   blameCache (onDidReceiveMessage env (ToggleHighlighting False) s) = blameCache s \<and>
   \<not> isHighlightingEnabled (onDidReceiveMessage env (ToggleHighlighting False) s)"
  by (simp add: saveState_fields clearAllHighlights_fields Let_def comp_def)

text \<open>
  The instance of the specification's example: after the highlighted window is switched
  off its editor has no decoration, the file has no index entry, and its blame record is
  still cached.
\<close>

theorem toggle_off_clears_highlights_only_witness:
  "highlightDecorations (visibleTextEditors highlighted_state ! 0) \<noteq> [] \<and>
   highlightedFiles highlighted_state ''/w/a.ts'' \<noteq> None \<and>
   highlightDecorations
     (visibleTextEditors (onDidReceiveMessage example_env (ToggleHighlighting False) highlighted_state) ! 0) = [] \<and>
   highlightedFiles (onDidReceiveMessage example_env (ToggleHighlighting False) highlighted_state) ''/w/a.ts'' = None \<and>
   blameCache (onDidReceiveMessage example_env (ToggleHighlighting False) highlighted_state) ''/w/a.ts'' =
     Some [\<lparr>hash = hashA, lines = [0, 1, 2]\<rparr>, \<lparr>hash = hashB, lines = [3, 4]\<rparr>] \<and>
   commitHashes (onDidReceiveMessage example_env (ToggleHighlighting False) highlighted_state) = [hashB]"
proof -
  let ?s' = "onDidReceiveMessage example_env (ToggleHighlighting False) highlighted_state"
  note t = toggle_off_clears_highlights_only[of example_env highlighted_state]
  have l: "length (visibleTextEditors ?s') = 1"
    using t[THEN conjunct2, THEN conjunct1, THEN arg_cong, of length]
    by (simp add: highlighted_state_fields)
  then have "visibleTextEditors ?s' ! 0 \<in> set (visibleTextEditors ?s')" by simp
  with t have "highlightDecorations (visibleTextEditors ?s' ! 0) = []" by blast
  with t show ?thesis by (simp add: highlighted_state_fields)
qed

subsection \<open>C6: the touched files replace the file index\<close>

text \<open>
  C6: for every list of identifiers \<^verbatim>\<open>updateFilesForCommits\<close> returns without throwing.
  It first empties the file index. With no workspace folder the index stays empty (no
  commit can be queried). With a workspace folder the index it leaves is exactly the
  touched files of the identifiers, as absolute paths, each with the count 1: nothing
  of the old index remains, and the files of the identifiers after an unresolvable one
  are there. Only a symbolic identifier can be unresolvable, and for each one that is,
  the warning is in the trace.
\<close>

theorem updateFilesForCommits_replaces_index:
  "fst (updateFilesForCommits env ids s) = Inr () \<and>
   (workspaceFolders env = [] \<longrightarrow>
      highlightedFiles (snd (updateFilesForCommits env ids s)) = Map.empty) \<and>
   (\<forall>root others. workspaceFolders env = root # others \<longrightarrow>
      highlightedFiles (snd (updateFilesForCommits env ids s)) =
        (\<lambda>p. if p \<in> touchedFiles env root ids then Some \<lparr>uri = p, highlightCount = 1\<rparr> else None) \<and>
      (\<forall>ident \<in> set ids. resolvedCommit env root ident = None \<longrightarrow>
         startsWith_I ident \<and>
         ConsoleWarn (''Could not resolve Change-Id: '' @ ident)
           \<in> set (trace (snd (updateFilesForCommits env ids s)))))"
proof -
  have 1: "fst (updateFilesForCommits env ids s) = Inr ()" by (rule updateFilesForCommits_result)
  have 2: "workspaceFolders env = [] \<longrightarrow>
      highlightedFiles (snd (updateFilesForCommits env ids s)) = Map.empty"
    by (simp add: updateFilesForCommits_files)
  have 3: "\<forall>root others. workspaceFolders env = root # others \<longrightarrow>
      highlightedFiles (snd (updateFilesForCommits env ids s)) =
        (\<lambda>p. if p \<in> touchedFiles env root ids then Some \<lparr>uri = p, highlightCount = 1\<rparr> else None) \<and>
      (\<forall>ident \<in> set ids. resolvedCommit env root ident = None \<longrightarrow>
         startsWith_I ident \<and>
         ConsoleWarn (''Could not resolve Change-Id: '' @ ident)
           \<in> set (trace (snd (updateFilesForCommits env ids s))))"
  proof (intro allI impI conjI ballI)
    fix root others assume w: "workspaceFolders env = root # others"
    then show "highlightedFiles (snd (updateFilesForCommits env ids s)) =
        (\<lambda>p. if p \<in> touchedFiles env root ids then Some \<lparr>uri = p, highlightCount = 1\<rparr> else None)"
      by (simp add: updateFilesForCommits_files touchedEntry_def)
    fix ident assume i: "ident \<in> set ids" "resolvedCommit env root ident = None"
    then show "startsWith_I ident" by (auto simp: resolvedCommit_def split: if_splits)
    from updateFilesLoop_warns[OF i] w
    show "ConsoleWarn (''Could not resolve Change-Id: '' @ ident)
           \<in> set (trace (snd (updateFilesForCommits env ids s)))"
      by (simp add: updateFilesForCommits_snd refreshFileExplorerDecorations_def emit_fields)
  qed
  show ?thesis by (rule conjI, rule 1, rule conjI, rule 2, rule 3)
qed

text \<open>
  The instance: an unresolvable Change-Id followed by one that resolves to the second
  commit, over an index that held another file.
\<close>

theorem updateFilesForCommits_replaces_index_witness:
  "highlightedFiles stale_state ''/w/old.ts'' \<noteq> None \<and>
   fst (updateFilesForCommits example_env [''Inone'', ''I4f2c''] stale_state) = Inr () \<and>
   highlightedFiles (snd (updateFilesForCommits example_env [''Inone'', ''I4f2c''] stale_state)) ''/w/old.ts'' = None \<and>
   highlightedFiles (snd (updateFilesForCommits example_env [''Inone'', ''I4f2c''] stale_state)) ''/w/lib/b.ts'' =
     Some \<lparr>uri = ''/w/lib/b.ts'', highlightCount = 1\<rparr> \<and>
   ConsoleWarn ''Could not resolve Change-Id: Inone''
     \<in> set (trace (snd (updateFilesForCommits example_env [''Inone'', ''I4f2c''] stale_state)))"
proof -
  have w: "workspaceFolders example_env = ''/w'' # []" by (simp add: example_env_def)
  note t = updateFilesForCommits_replaces_index[of example_env "[''Inone'', ''I4f2c'']" stale_state]
  from t have 1: "fst (updateFilesForCommits example_env [''Inone'', ''I4f2c''] stale_state) = Inr ()"
    by (rule conjunct1)
  from t w have 2: "highlightedFiles (snd (updateFilesForCommits example_env [''Inone'', ''I4f2c''] stale_state)) =
        (\<lambda>p. if p \<in> touchedFiles example_env ''/w'' [''Inone'', ''I4f2c'']
              then Some \<lparr>uri = p, highlightCount = 1\<rparr> else None)"
    by blast
  from t w have "\<forall>ident \<in> set [''Inone'', ''I4f2c'']. resolvedCommit example_env ''/w'' ident = None \<longrightarrow>
         startsWith_I ident \<and>
         ConsoleWarn (''Could not resolve Change-Id: '' @ ident)
           \<in> set (trace (snd (updateFilesForCommits example_env [''Inone'', ''I4f2c''] stale_state)))"
    by blast
  then have 3: "ConsoleWarn ''Could not resolve Change-Id: Inone''
     \<in> set (trace (snd (updateFilesForCommits example_env [''Inone'', ''I4f2c''] stale_state)))"
    using example_resolved(2) by simp
  have 4: "highlightedFiles stale_state ''/w/old.ts'' \<noteq> None" by (simp add: stale_state_def)
  from 1 3 4 show ?thesis unfolding 2 example_touched by simp
qed

subsection \<open>C7: highlighting an editor twice\<close>

text \<open>
  C7: for every editor position, list of active identifiers, host and state, running
  the highlight of an editor a second time right after the first leaves the decorations
  of all editors, the file index and the blame cache as the first run left them. This
  holds for \<^verbatim>\<open>clearHighlighting\<close> followed by \<^verbatim>\<open>applyHighlighting\<close> (the way both
  callers run it), for \<^verbatim>\<open>applyHighlighting\<close> alone, and for
  \<^verbatim>\<open>highlightActiveEditor\<close>.
\<close>

theorem highlight_idempotent:
  "(let s1 = applyHighlighting env i hs (clearHighlighting i s);
        s2 = applyHighlighting env i hs (clearHighlighting i s1)
    in visibleTextEditors s2 = visibleTextEditors s1 \<and> highlightedFiles s2 = highlightedFiles s1 \<and>
       blameCache s2 = blameCache s1) \<and>
   (let s1 = applyHighlighting env i hs s;
        s2 = applyHighlighting env i hs s1
    in visibleTextEditors s2 = visibleTextEditors s1 \<and> highlightedFiles s2 = highlightedFiles s1 \<and>
       blameCache s2 = blameCache s1) \<and>
   (let s1 = highlightActiveEditor env s;
        s2 = highlightActiveEditor env s1
    in visibleTextEditors s2 = visibleTextEditors s1 \<and> highlightedFiles s2 = highlightedFiles s1 \<and>
       blameCache s2 = blameCache s1)"
  unfolding Let_def
  by (intro conjI highlight_twice[THEN conjunct1] highlight_twice[THEN conjunct2, THEN conjunct1]
      highlight_twice[THEN conjunct2, THEN conjunct2]
      applyHighlighting_twice[THEN conjunct1] applyHighlighting_twice[THEN conjunct2, THEN conjunct1]
      applyHighlighting_twice[THEN conjunct2, THEN conjunct2]
      highlightActiveEditor_twice[THEN conjunct1] highlightActiveEditor_twice[THEN conjunct2, THEN conjunct1]
      highlightActiveEditor_twice[THEN conjunct2, THEN conjunct2])

text \<open>
  The instance: highlighting the example editor again gives the two decorations, the
  index entry and the cached record of the first run.
\<close>

theorem highlight_idempotent_witness:
  "map range_line (highlightDecorations
     (visibleTextEditors
        (applyHighlighting example_env 0 [hashB] (clearHighlighting 0 highlighted_state)) ! 0)) = [3, 4] \<and>
   highlightedFiles (applyHighlighting example_env 0 [hashB] (clearHighlighting 0 highlighted_state)) ''/w/a.ts'' =
     Some \<lparr>uri = ''/w/a.ts'', highlightCount = 2\<rparr> \<and>
   blameCache (applyHighlighting example_env 0 [hashB] (clearHighlighting 0 highlighted_state)) ''/w/a.ts'' =
     Some [\<lparr>hash = hashA, lines = [0, 1, 2]\<rparr>, \<lparr>hash = hashB, lines = [3, 4]\<rparr>]"
  using highlight_idempotent[of example_env 0 "[hashB]" example_state, THEN conjunct1]
  unfolding Let_def highlighted_state_def[symmetric]
  by (simp add: highlighted_state_fields)

subsection \<open>C8: the partition invariant of a parsed record\<close>

text \<open>
  C8, as stated, says that every line of the file appears in exactly one hash's list.
  It fails: the parser skips an output line that does not begin with a word character.
  For a file of two lines whose first line comes from a boundary commit (git prints
  \<^verbatim>\<open>^\<close> before its hash) the output splits into the two lines and the empty piece
  after the last line feed; the record holds line 1 only, and line 0 is in no list.
\<close>

theorem parseBlame_boundary_counterexample:
  "length (split_nl boundary_stdout) = 3 \<and> split_nl boundary_stdout ! 2 = [] \<and>
   parseBlame boundary_stdout = [\<lparr>hash = hashB, lines = [1]\<rparr>] \<and>
   \<not> (\<exists>b \<in> set (parseBlame boundary_stdout). 0 \<in> set (lines b))"
  using boundary_split boundary_split_last by (simp add: boundary_record)

text \<open>
  C8, amended: in every record the parser produces, no hash occurs twice, no list is
  empty or holds a line twice, the lists of distinct entries are pairwise disjoint, the
  lines listed are exactly the output lines that begin with a word character, and each
  such line is in exactly one list, that of the first 40 characters of its leading run
  of word characters.
\<close>

theorem parseBlame_partition:
  "distinct (map hash (parseBlame out)) \<and>
   (\<forall>b \<in> set (parseBlame out). distinct (lines b) \<and> lines b \<noteq> []) \<and>
   (\<forall>b \<in> set (parseBlame out). \<forall>b' \<in> set (parseBlame out).
      b \<noteq> b' \<longrightarrow> set (lines b) \<inter> set (lines b') = {}) \<and>
   (\<forall>n. (\<exists>b \<in> set (parseBlame out). n \<in> set (lines b)) =
        (n < length (split_nl out) \<and> matchWord (split_nl out ! n) \<noteq> None)) \<and>
   (\<forall>n w. n < length (split_nl out) \<and> matchWord (split_nl out ! n) = Some w \<longrightarrow>
      (\<exists>!b. b \<in> set (parseBlame out) \<and> n \<in> set (lines b)) \<and>
      (\<forall>b \<in> set (parseBlame out). n \<in> set (lines b) \<longrightarrow> hash b = take 40 w))"
proof (intro conjI allI ballI impI)
  show "distinct (map hash (parseBlame out))" by (rule parseBlame_hashes)
next
  fix b assume "b \<in> set (parseBlame out)"
  then show "distinct (lines b)"
    using parseBlame_lines[of out] by (auto simp: distinct_concat_iff)
next
  fix b assume "b \<in> set (parseBlame out)"
  then show "lines b \<noteq> []" by (rule parseBlame_nonempty)
next
  fix b b' assume "b \<in> set (parseBlame out)" "b' \<in> set (parseBlame out)" "b \<noteq> b'"
  then show "set (lines b) \<inter> set (lines b') = {}"
    using parseBlame_wf[of out] by (rule wf_record_disjoint[rotated])
next
  fix n
  have "(\<exists>b \<in> set (parseBlame out). n \<in> set (lines b)) =
        (\<exists>h. \<exists>b \<in> set (parseBlame out). hash b = h \<and> n \<in> set (lines b))" by blast
  also have "\<dots> = (\<exists>h. n < length (split_nl out) \<and> lineKey (split_nl out ! n) = Some h)"
    by (simp only: parseBlame_mem)
  also have "\<dots> = (n < length (split_nl out) \<and> matchWord (split_nl out ! n) \<noteq> None)"
    by (auto simp: lineKey_def)
  finally show "(\<exists>b \<in> set (parseBlame out). n \<in> set (lines b)) =
        (n < length (split_nl out) \<and> matchWord (split_nl out ! n) \<noteq> None)" .
next
  fix n w assume a: "n < length (split_nl out) \<and> matchWord (split_nl out ! n) = Some w"
  then have k: "lineKey (split_nl out ! n) = Some (take 40 w)" by (simp add: lineKey_def)
  with a obtain b where b: "b \<in> set (parseBlame out)" "hash b = take 40 w" "n \<in> set (lines b)"
    using parseBlame_mem[of out "take 40 w" n] by auto
  have u: "\<And>b'. b' \<in> set (parseBlame out) \<Longrightarrow> n \<in> set (lines b') \<Longrightarrow> b' = b"
  proof (rule ccontr)
    fix b' assume b': "b' \<in> set (parseBlame out)" "n \<in> set (lines b')" "b' \<noteq> b"
    from wf_record_disjoint[OF parseBlame_wf b'(1) b(1) b'(3)] b'(2) b(3) show False by auto
  qed
  from b u show "\<exists>!b. b \<in> set (parseBlame out) \<and> n \<in> set (lines b)" by blast
  fix c assume "c \<in> set (parseBlame out)" "n \<in> set (lines c)"
  with u b show "hash c = take 40 w" by auto
qed

text \<open>
  The instance for the five-line example: line 3 begins with the second hash, so it is
  in exactly one list, the one of that hash.
\<close>

theorem parseBlame_partition_witness:
  "distinct (map hash (parseBlame example_stdout)) \<and>
   (\<exists>!b. b \<in> set (parseBlame example_stdout) \<and> 3 \<in> set (lines b)) \<and>
   \<lparr>hash = take 40 hashB, lines = [3, 4]\<rparr> \<in> set (parseBlame example_stdout)"
proof -
  note p = parseBlame_partition[of example_stdout]
  from p have 1: "distinct (map hash (parseBlame example_stdout))" by (rule conjunct1)
  from p have "\<forall>n w. n < length (split_nl example_stdout) \<and>
       matchWord (split_nl example_stdout ! n) = Some w \<longrightarrow>
      (\<exists>!b. b \<in> set (parseBlame example_stdout) \<and> n \<in> set (lines b)) \<and>
      (\<forall>b \<in> set (parseBlame example_stdout). n \<in> set (lines b) \<longrightarrow> hash b = take 40 w)"
    by (elim conjE)
  then have 2: "\<exists>!b. b \<in> set (parseBlame example_stdout) \<and> 3 \<in> set (lines b)"
    using example_line3 by auto
  have 3: "\<lparr>hash = take 40 hashB, lines = [3, 4]\<rparr> \<in> set (parseBlame example_stdout)"
    by (simp add: example_record hashB_def)
  from 1 2 3 show ?thesis by simp
qed

subsection \<open>C9: symbolic identifiers are not resolved when lines are highlighted\<close>

text \<open>
  C9: after \<^verbatim>\<open>clearHighlighting\<close> and \<^verbatim>\<open>applyHighlighting\<close> every decoration of the
  editor carries a hash of the file's record that is literally one of the active
  identifiers. So when a symbolic identifier (one beginning with \<^verbatim>\<open>I\<close>) resolves to
  a commit that is not itself among the active identifiers, no decoration is made for
  that commit, whatever lines the record attributes to it; and when no hash of the
  record begins with \<^verbatim>\<open>I\<close> (git prints hexadecimal hashes), every decoration is due
  to a non-symbolic identifier. \<^verbatim>\<open>applyHighlighting\<close> runs no \<^verbatim>\<open>git log\<close> query.
  The same symbolic identifier does contribute to the file index: every file its commit
  changed gets an entry from \<^verbatim>\<open>updateFilesForCommits\<close>.
\<close>

theorem symbolic_identifier_never_highlights:
  "(i < length (visibleTextEditors s) \<longrightarrow>
      (\<forall>d \<in> set (highlightDecorations
                  (visibleTextEditors (applyHighlighting env i hs (clearHighlighting i s)) ! i)).
         \<exists>b \<in> set (blameResult env (fsPath (visibleTextEditors s ! i)) (blameCache s)).
           hash b \<in> set hs \<and> hoverMessage d = ''Commit: '' @ hash b) \<and>
      (\<forall>ident root c.
         startsWith_I ident \<and> ident \<in> set hs \<and> resolvedCommit env root ident = Some c \<and> c \<notin> set hs \<longrightarrow>
         filter (\<lambda>d. hoverMessage d = ''Commit: '' @ c)
           (highlightDecorations
              (visibleTextEditors (applyHighlighting env i hs (clearHighlighting i s)) ! i)) = []) \<and>
      ((\<forall>b \<in> set (blameResult env (fsPath (visibleTextEditors s ! i)) (blameCache s)).
           \<not> startsWith_I (hash b)) \<longrightarrow>
       (\<forall>d \<in> set (highlightDecorations
                  (visibleTextEditors (applyHighlighting env i hs (clearHighlighting i s)) ! i)).
          \<exists>h \<in> set hs. \<not> startsWith_I h \<and> hoverMessage d = ''Commit: '' @ h))) \<and>
   (\<forall>ident w. Exec (logGrepCommand ident) w \<in> set (trace (applyHighlighting env i hs s)) \<longrightarrow>
      Exec (logGrepCommand ident) w \<in> set (trace s)) \<and>
   (\<forall>root others ident c f.
      workspaceFolders env = root # others \<and> startsWith_I ident \<and> ident \<in> set hs \<and>
      resolvedCommit env root ident = Some c \<and> f \<in> set (changedFiles env root c) \<longrightarrow>
      highlightedFiles (snd (updateFilesForCommits env hs s)) (path_join env root f) =
        Some \<lparr>uri = path_join env root f, highlightCount = 1\<rparr>)"
proof -
  let ?decs = "highlightDecorations
                  (visibleTextEditors (applyHighlighting env i hs (clearHighlighting i s)) ! i)"
  let ?r = "blameResult env (fsPath (visibleTextEditors s ! i)) (blameCache s)"
  have lit: "\<And>d. i < length (visibleTextEditors s) \<Longrightarrow> d \<in> set ?decs \<Longrightarrow>
      \<exists>b \<in> set ?r. hash b \<in> set hs \<and> hoverMessage d = ''Commit: '' @ hash b"
    using highlight_literal by blast
  have 1: "i < length (visibleTextEditors s) \<longrightarrow>
      (\<forall>d \<in> set ?decs. \<exists>b \<in> set ?r. hash b \<in> set hs \<and> hoverMessage d = ''Commit: '' @ hash b) \<and>
      (\<forall>ident root c.
         startsWith_I ident \<and> ident \<in> set hs \<and> resolvedCommit env root ident = Some c \<and> c \<notin> set hs \<longrightarrow>
         filter (\<lambda>d. hoverMessage d = ''Commit: '' @ c) ?decs = []) \<and>
      ((\<forall>b \<in> set ?r. \<not> startsWith_I (hash b)) \<longrightarrow>
       (\<forall>d \<in> set ?decs. \<exists>h \<in> set hs. \<not> startsWith_I h \<and> hoverMessage d = ''Commit: '' @ h))"
  proof (intro impI conjI allI ballI)
    assume i: "i < length (visibleTextEditors s)"
    fix d assume "d \<in> set ?decs"
    from lit[OF i this]
    show "\<exists>b \<in> set ?r. hash b \<in> set hs \<and> hoverMessage d = ''Commit: '' @ hash b" .
  next
    assume i: "i < length (visibleTextEditors s)"
    fix ident root c
    assume a: "startsWith_I ident \<and> ident \<in> set hs \<and> resolvedCommit env root ident = Some c \<and> c \<notin> set hs"
    show "filter (\<lambda>d. hoverMessage d = ''Commit: '' @ c) ?decs = []"
    proof (rule ccontr)
      assume "filter (\<lambda>d. hoverMessage d = ''Commit: '' @ c) ?decs \<noteq> []"
      then obtain d where d: "d \<in> set ?decs" "hoverMessage d = ''Commit: '' @ c"
        by (auto simp: filter_empty_conv)
      from lit[OF i d(1)] d(2) have "c \<in> set hs" by auto
      with a show False by simp
    qed
  next
    assume i: "i < length (visibleTextEditors s)"
    assume k: "\<forall>b \<in> set ?r. \<not> startsWith_I (hash b)"
    fix d assume "d \<in> set ?decs"
    from lit[OF i this] k
    show "\<exists>h \<in> set hs. \<not> startsWith_I h \<and> hoverMessage d = ''Commit: '' @ h" by blast
  qed
  have 2: "\<forall>ident w. Exec (logGrepCommand ident) w \<in> set (trace (applyHighlighting env i hs s)) \<longrightarrow>
      Exec (logGrepCommand ident) w \<in> set (trace s)"
    using applyHighlighting_no_log by blast
  have 3: "\<forall>root others ident c f.
      workspaceFolders env = root # others \<and> startsWith_I ident \<and> ident \<in> set hs \<and>
      resolvedCommit env root ident = Some c \<and> f \<in> set (changedFiles env root c) \<longrightarrow>
      highlightedFiles (snd (updateFilesForCommits env hs s)) (path_join env root f) =
        Some \<lparr>uri = path_join env root f, highlightCount = 1\<rparr>"
    using touched_contributes by blast
  show ?thesis by (rule conjI, rule 1, rule conjI, rule 2, rule 3)
qed

text \<open>
  The instance: the Change-Id resolves to the second commit, which the record credits
  with lines 3 and 4 of the open file; no decoration is made for it, and the file gets
  its index entry.
\<close>

theorem symbolic_identifier_never_highlights_witness:
  "startsWith_I ''I4f2c'' \<and> resolvedCommit example_env ''/w'' ''I4f2c'' = Some hashB \<and>
   \<lparr>hash = hashB, lines = [3, 4]\<rparr>
     \<in> set (blameResult example_env (fsPath (visibleTextEditors example_state ! 0)) (blameCache example_state)) \<and>
   filter (\<lambda>d. hoverMessage d = ''Commit: '' @ hashB)
     (highlightDecorations
        (visibleTextEditors
           (applyHighlighting example_env 0 [''I4f2c''] (clearHighlighting 0 example_state)) ! 0)) = [] \<and>
   highlightedFiles (snd (updateFilesForCommits example_env [''I4f2c''] example_state)) ''/w/a.ts'' =
     Some \<lparr>uri = ''/w/a.ts'', highlightCount = 1\<rparr>"
proof -
  note t = symbolic_identifier_never_highlights[of 0 example_state example_env "[''I4f2c'']"]
  have i: "0 < length (visibleTextEditors example_state)" by (simp add: example_state_def)
  have r: "\<lparr>hash = hashB, lines = [3, 4]\<rparr>
     \<in> set (blameResult example_env (fsPath (visibleTextEditors example_state ! 0)) (blameCache example_state))"
    by (simp add: example_state_def example_editor_def example_blameResult)
  have a: "startsWith_I ''I4f2c'' \<and> ''I4f2c'' \<in> set [''I4f2c''] \<and>
      resolvedCommit example_env ''/w'' ''I4f2c'' = Some hashB \<and> hashB \<notin> set [''I4f2c'']"
    using example_symbolic example_resolved by simp
  from t i have "\<forall>ident root c.
         startsWith_I ident \<and> ident \<in> set [''I4f2c''] \<and>
         resolvedCommit example_env root ident = Some c \<and> c \<notin> set [''I4f2c''] \<longrightarrow>
         filter (\<lambda>d. hoverMessage d = ''Commit: '' @ c)
           (highlightDecorations
              (visibleTextEditors (applyHighlighting example_env 0 [''I4f2c''] (clearHighlighting 0 example_state)) ! 0)) = []"
    by blast
  with a have 1: "filter (\<lambda>d. hoverMessage d = ''Commit: '' @ hashB)
           (highlightDecorations
              (visibleTextEditors (applyHighlighting example_env 0 [''I4f2c''] (clearHighlighting 0 example_state)) ! 0)) = []"
    by blast
  have b: "workspaceFolders example_env = ''/w'' # [] \<and> startsWith_I ''I4f2c'' \<and> ''I4f2c'' \<in> set [''I4f2c''] \<and>
      resolvedCommit example_env ''/w'' ''I4f2c'' = Some hashB \<and> ''a.ts'' \<in> set (changedFiles example_env ''/w'' hashB)"
    using example_symbolic example_resolved example_changed by simp
  from t have "\<forall>root others ident c f.
      workspaceFolders example_env = root # others \<and> startsWith_I ident \<and> ident \<in> set [''I4f2c''] \<and>
      resolvedCommit example_env root ident = Some c \<and> f \<in> set (changedFiles example_env root c) \<longrightarrow>
      highlightedFiles (snd (updateFilesForCommits example_env [''I4f2c''] example_state)) (path_join example_env root f) =
        Some \<lparr>uri = path_join example_env root f, highlightCount = 1\<rparr>"
    by blast
  with b have "highlightedFiles (snd (updateFilesForCommits example_env [''I4f2c''] example_state))
        (path_join example_env ''/w'' ''a.ts'') =
        Some \<lparr>uri = path_join example_env ''/w'' ''a.ts'', highlightCount = 1\<rparr>"
    by blast
  then have 2: "highlightedFiles (snd (updateFilesForCommits example_env [''I4f2c''] example_state)) ''/w/a.ts'' =
     Some \<lparr>uri = ''/w/a.ts'', highlightCount = 1\<rparr>"
    by (simp only: example_symbolic(3))
  from a r 1 2 show ?thesis by blast
qed

subsection \<open>C10: stored hashes are truncated tokens, matched by equality\<close>

text \<open>
  C10: every hash of a parsed record is the leading run of word characters of one of
  the output lines listed under it, cut to its first 40 characters. After
  \<^verbatim>\<open>clearHighlighting\<close> and \<^verbatim>\<open>applyHighlighting\<close> every decoration carries a hash
  of the record that is equal to an active identifier, on a line listed under that
  hash; and, when the lines of the hashes equal to an active identifier are lines of
  the document, every line of each of these hashes is decorated with that hash. Hence
  when the active identifiers are strict prefixes of a stored hash (short hashes),
  there is no decoration for that hash.
\<close>

theorem stored_hash_truncated_and_matched_exactly:
  "(\<forall>b \<in> set (parseBlame out).
      \<exists>n. n < length (split_nl out) \<and> n \<in> set (lines b) \<and>
          takeWhile isWordChar (split_nl out ! n) \<noteq> [] \<and>
          hash b = take 40 (takeWhile isWordChar (split_nl out ! n))) \<and>
   (i < length (visibleTextEditors s) \<longrightarrow>
      (\<forall>d \<in> set (highlightDecorations
                  (visibleTextEditors (applyHighlighting env i hs (clearHighlighting i s)) ! i)).
         \<exists>b \<in> set (blameResult env (fsPath (visibleTextEditors s ! i)) (blameCache s)).
           hash b \<in> set hs \<and> hoverMessage d = ''Commit: '' @ hash b \<and>
           range_line d \<in> set (lines b)) \<and>
      (linesInDocument (visibleTextEditors s ! i)
         (matching hs (blameResult env (fsPath (visibleTextEditors s ! i)) (blameCache s))) \<longrightarrow>
       (\<forall>b \<in> set (blameResult env (fsPath (visibleTextEditors s ! i)) (blameCache s)).
          hash b \<in> set hs \<longrightarrow>
            (\<forall>n \<in> set (lines b).
               \<lparr>range_line = n, hoverMessage = ''Commit: '' @ hash b\<rparr>
                 \<in> set (highlightDecorations
                     (visibleTextEditors (applyHighlighting env i hs (clearHighlighting i s)) ! i))))) \<and>
      (\<forall>k. (\<forall>h \<in> set hs. strict_prefix h k) \<longrightarrow>
         filter (\<lambda>d. hoverMessage d = ''Commit: '' @ k)
           (highlightDecorations
              (visibleTextEditors (applyHighlighting env i hs (clearHighlighting i s)) ! i)) = []))"
proof -
  let ?ed = "visibleTextEditors s ! i"
  let ?r = "blameResult env (fsPath ?ed) (blameCache s)"
  let ?D = "highlightDecorations
              (visibleTextEditors (applyHighlighting env i hs (clearHighlighting i s)) ! i)"
  have 1: "\<forall>b \<in> set (parseBlame out).
      \<exists>n. n < length (split_nl out) \<and> n \<in> set (lines b) \<and>
          takeWhile isWordChar (split_nl out ! n) \<noteq> [] \<and>
          hash b = take 40 (takeWhile isWordChar (split_nl out ! n))"
    using parseBlame_key by blast
  have 2: "\<forall>d \<in> set ?D. \<exists>b \<in> set ?r. hash b \<in> set hs \<and> hoverMessage d = ''Commit: '' @ hash b \<and>
             range_line d \<in> set (lines b)"
    if i: "i < length (visibleTextEditors s)"
  proof
    fix d assume "d \<in> set ?D"
    from highlight_literal[OF i this]
    show "\<exists>b \<in> set ?r. hash b \<in> set hs \<and> hoverMessage d = ''Commit: '' @ hash b \<and>
             range_line d \<in> set (lines b)" .
  qed
  have 3: "linesInDocument ?ed (matching hs ?r) \<longrightarrow>
       (\<forall>b \<in> set ?r. hash b \<in> set hs \<longrightarrow>
            (\<forall>n \<in> set (lines b). \<lparr>range_line = n, hoverMessage = ''Commit: '' @ hash b\<rparr> \<in> set ?D))"
    if i: "i < length (visibleTextEditors s)"
  proof (intro impI ballI)
    fix b n
    assume lin: "linesInDocument ?ed (matching hs ?r)"
      and b: "b \<in> set ?r" "hash b \<in> set hs" and n: "n \<in> set (lines b)"
    from highlight_in_document[OF i lin]
    have D: "?D = concat (map decorationsOf (matching hs ?r))" by simp
    from b have "b \<in> set (matching hs ?r)" by (simp add: matching_def)
    moreover from n have "\<lparr>range_line = n, hoverMessage = ''Commit: '' @ hash b\<rparr> \<in> set (decorationsOf b)"
      by (simp add: decorationsOf_def)
    ultimately show "\<lparr>range_line = n, hoverMessage = ''Commit: '' @ hash b\<rparr> \<in> set ?D"
      unfolding D by auto
  qed
  have 4: "\<forall>k. (\<forall>h \<in> set hs. strict_prefix h k) \<longrightarrow>
         filter (\<lambda>d. hoverMessage d = ''Commit: '' @ k) ?D = []"
    if i: "i < length (visibleTextEditors s)"
  proof (intro allI impI)
    fix k assume k: "\<forall>h \<in> set hs. strict_prefix h k"
    show "filter (\<lambda>d. hoverMessage d = ''Commit: '' @ k) ?D = []"
    proof (rule ccontr)
      assume "filter (\<lambda>d. hoverMessage d = ''Commit: '' @ k) ?D \<noteq> []"
      then obtain d where d: "d \<in> set ?D" "hoverMessage d = ''Commit: '' @ k"
        by (auto simp: filter_empty_conv)
      from highlight_literal[OF i d(1)] d(2) have "k \<in> set hs" by auto
      with k show False by auto
    qed
  qed
  show ?thesis
    by (rule conjI, rule 1, rule impI, rule conjI, erule 2, rule conjI, erule 3, erule 4)
qed

text \<open>
  The instances: the first seven characters of the second commit's hash decorate
  nothing, although lines 3 and 4 of the open file are attributed to that commit; the
  full hash decorates both lines.
\<close>

theorem stored_hash_truncated_and_matched_exactly_witness:
  "\<lparr>hash = hashB, lines = [3, 4]\<rparr>
     \<in> set (blameResult example_env (fsPath (visibleTextEditors example_state ! 0)) (blameCache example_state)) \<and>
   strict_prefix (take 7 hashB) hashB \<and>
   filter (\<lambda>d. hoverMessage d = ''Commit: '' @ hashB)
     (highlightDecorations
        (visibleTextEditors
           (applyHighlighting example_env 0 [take 7 hashB] (clearHighlighting 0 example_state)) ! 0)) = [] \<and>
   \<lparr>range_line = 3, hoverMessage = ''Commit: '' @ hashB\<rparr>
     \<in> set (highlightDecorations
        (visibleTextEditors
           (applyHighlighting example_env 0 [hashB] (clearHighlighting 0 example_state)) ! 0)) \<and>
   \<lparr>range_line = 4, hoverMessage = ''Commit: '' @ hashB\<rparr>
     \<in> set (highlightDecorations
        (visibleTextEditors
           (applyHighlighting example_env 0 [hashB] (clearHighlighting 0 example_state)) ! 0))"
proof -
  let ?r = "[\<lparr>hash = hashA, lines = [0, 1, 2]\<rparr>, \<lparr>hash = hashB, lines = [3, 4]\<rparr>]"
  have i: "0 < length (visibleTextEditors example_state)" by (simp add: example_state_def)
  have k: "\<forall>h \<in> set [take 7 hashB]. strict_prefix h hashB" using short_hash by simp
  have re: "blameResult example_env (fsPath (visibleTextEditors example_state ! 0)) (blameCache example_state) = ?r"
    by (simp add: example_state_def example_editor_def example_blameResult)
  have r: "\<lparr>hash = hashB, lines = [3, 4]\<rparr>
     \<in> set (blameResult example_env (fsPath (visibleTextEditors example_state ! 0)) (blameCache example_state))"
    by (simp add: re)
  have lin: "linesInDocument (visibleTextEditors example_state ! 0)
      (matching [hashB] (blameResult example_env (fsPath (visibleTextEditors example_state ! 0))
         (blameCache example_state)))"
    unfolding re by (simp add: linesInDocument_def matching_def example_state_def example_editor_def)
  from stored_hash_truncated_and_matched_exactly[of example_stdout 0 example_state example_env "[take 7 hashB]"] i
  have "\<forall>k. (\<forall>h \<in> set [take 7 hashB]. strict_prefix h k) \<longrightarrow>
         filter (\<lambda>d. hoverMessage d = ''Commit: '' @ k)
           (highlightDecorations
              (visibleTextEditors (applyHighlighting example_env 0 [take 7 hashB] (clearHighlighting 0 example_state)) ! 0)) = []"
    by blast
  with k have a: "filter (\<lambda>d. hoverMessage d = ''Commit: '' @ hashB)
           (highlightDecorations
              (visibleTextEditors (applyHighlighting example_env 0 [take 7 hashB] (clearHighlighting 0 example_state)) ! 0)) = []"
    by blast
  from stored_hash_truncated_and_matched_exactly[of example_stdout 0 example_state example_env "[hashB]"] i lin
  have "\<forall>b \<in> set (blameResult example_env (fsPath (visibleTextEditors example_state ! 0)) (blameCache example_state)).
          hash b \<in> set [hashB] \<longrightarrow>
            (\<forall>n \<in> set (lines b).
               \<lparr>range_line = n, hoverMessage = ''Commit: '' @ hash b\<rparr>
                 \<in> set (highlightDecorations
                     (visibleTextEditors (applyHighlighting example_env 0 [hashB] (clearHighlighting 0 example_state)) ! 0)))"
    by blast
  from bspec[OF this r]
  have b: "\<forall>n \<in> set [3, 4::nat].
               \<lparr>range_line = n, hoverMessage = ''Commit: '' @ hashB\<rparr>
                 \<in> set (highlightDecorations
                     (visibleTextEditors (applyHighlighting example_env 0 [hashB] (clearHighlighting 0 example_state)) ! 0))"
    by simp
  from b have b3: "\<lparr>range_line = 3, hoverMessage = ''Commit: '' @ hashB\<rparr>
                 \<in> set (highlightDecorations
                     (visibleTextEditors (applyHighlighting example_env 0 [hashB] (clearHighlighting 0 example_state)) ! 0))"
    by simp
  from b have b4: "\<lparr>range_line = 4, hoverMessage = ''Commit: '' @ hashB\<rparr>
                 \<in> set (highlightDecorations
                     (visibleTextEditors (applyHighlighting example_env 0 [hashB] (clearHighlighting 0 example_state)) ! 0))"
    by simp
  from r short_hash a b3 b4 show ?thesis by (intro conjI)
qed

end
